theory Spec2Isabelle
  imports Complex_Main "HOL-Library.Multiset" "HOL-Library.Char_ord" "HOL-Library.List_Lexorder"
begin

section \<open>Animated-image subsystem: the frame scheduler (src/gif/frame-scheduler.ts)\<close>

text \<open>
  A decoded frame is a canvas together with its display time in milliseconds
  (interface \<open>GifFrame\<close> of src/gif/decoder.ts). The canvas type is left open here; the
  decoder below instantiates it with a pixel buffer.
\<close>

record 'c GifFrame =
  canvas :: 'c
  delay :: int

text \<open>
  The per-frame callback \<open>(frame, index) => void\<close> acts on the surrounding application
  (scrubber position, frame label, preview). That application state is the type \<open>'w\<close>; a
  callback is a state transformer on it. The callbacks registered in this repository
  (src/editor/timeline.ts and the editor shell) never call back into the scheduler.
\<close>

type_synonym ('c, 'w) frameCallback = "'c GifFrame \<Rightarrow> int \<Rightarrow> 'w \<Rightarrow> 'w"

record ('c, 'w) FrameScheduler =
  frames :: "'c GifFrame list"
  currentIndex :: int
  animationId :: "nat option"
  lastFrameTime :: int
  playing :: bool
  onFrame :: "('c, 'w) frameCallback option"

definition newScheduler :: "('c, 'w) FrameScheduler" where
  "newScheduler =
     \<lparr>frames = [], currentIndex = 0, animationId = None, lastFrameTime = 0,
      playing = False, onFrame = None\<rparr>"

text \<open>
  \<open>this.frames[i]\<close>: an array read yields \<open>undefined\<close> outside \<open>0 .. length - 1\<close>;
  a frame object itself is always truthy.
\<close>

definition frameAt :: "'c GifFrame list \<Rightarrow> int \<Rightarrow> 'c GifFrame option" where
  "frameAt fs i = (if 0 \<le> i \<and> i < int (length fs) then Some (fs ! nat i) else None)"

definition pause :: "('c, 'w) FrameScheduler \<Rightarrow> ('c, 'w) FrameScheduler" where
  "pause s = s\<lparr>playing := False, animationId := None\<rparr>"

definition stop :: "('c, 'w) FrameScheduler \<Rightarrow> ('c, 'w) FrameScheduler" where
  "stop s = (pause s)\<lparr>currentIndex := 0\<rparr>"

definition setFrames :: "'c GifFrame list \<Rightarrow> ('c, 'w) FrameScheduler \<Rightarrow> ('c, 'w) FrameScheduler" where
  "setFrames fs s = (stop s)\<lparr>frames := fs, currentIndex := 0\<rparr>"

definition setCallback :: "('c, 'w) frameCallback \<Rightarrow> ('c, 'w) FrameScheduler \<Rightarrow> ('c, 'w) FrameScheduler" where
  "setCallback cb s = s\<lparr>onFrame := Some cb\<rparr>"

text \<open>
  One run of \<open>tick\<close>. The clock reading \<open>performance.now()\<close> and the handle returned by
  \<open>requestAnimationFrame\<close> are inputs of the step.
\<close>

definition tick :: "int \<Rightarrow> nat \<Rightarrow> ('c, 'w) FrameScheduler \<Rightarrow> 'w \<Rightarrow> ('c, 'w) FrameScheduler \<times> 'w" where
  "tick now raf s w =
     (if \<not> playing s then (s, w)
      else case frameAt (frames s) (currentIndex s) of
        None \<Rightarrow> (s, w)
      | Some frame \<Rightarrow>
          (if now - lastFrameTime s \<ge> delay frame then
             (let s1 = s\<lparr>lastFrameTime := now,
                          currentIndex := (currentIndex s + 1) mod int (length (frames s))\<rparr>;
                  w1 = (case onFrame s1 of
                          None \<Rightarrow> w
                        | Some cb \<Rightarrow> cb (frames s1 ! nat (currentIndex s1)) (currentIndex s1) w)
              in (s1\<lparr>animationId := Some raf\<rparr>, w1))
           else (s\<lparr>animationId := Some raf\<rparr>, w)))"

definition play :: "int \<Rightarrow> nat \<Rightarrow> ('c, 'w) FrameScheduler \<Rightarrow> 'w \<Rightarrow> ('c, 'w) FrameScheduler \<times> 'w" where
  "play now raf s w =
     (if frames s = [] \<or> playing s then (s, w)
      else tick now raf (s\<lparr>playing := True, lastFrameTime := now\<rparr>) w)"

text \<open>
  \<open>seek(index)\<close>, for an integer index:
  \<open>this.currentIndex = Math.max(0, Math.min(index, this.frames.length - 1))\<close>, then the
  callback runs when one is registered and the frame at the new index exists.
\<close>

definition seek :: "int \<Rightarrow> ('c, 'w) FrameScheduler \<Rightarrow> 'w \<Rightarrow> ('c, 'w) FrameScheduler \<times> 'w" where
  "seek index s w =
     (let s1 = s\<lparr>currentIndex := max 0 (min index (int (length (frames s)) - 1))\<rparr>
      in case onFrame s1 of
           None \<Rightarrow> (s1, w)
         | Some cb \<Rightarrow>
             (case frameAt (frames s1) (currentIndex s1) of
                None \<Rightarrow> (s1, w)
              | Some frame \<Rightarrow> (s1, cb frame (currentIndex s1) w)))"

text \<open>The index \<open>i\<close> clamped into \<open>[0, n - 1]\<close>, written by cases.\<close>

definition clampIndex :: "nat \<Rightarrow> int \<Rightarrow> int" where
  "clampIndex n i = (if i < 0 then 0 else if int n - 1 < i then int n - 1 else i)"

text \<open>A callback that records its calls, used to observe the scheduler on concrete inputs.\<close>

definition logCall :: "(nat, (nat GifFrame \<times> int) list) frameCallback" where
  "logCall frame i w = w @ [(frame, i)]"

definition threeFrames :: "nat GifFrame list" where
  "threeFrames =
     [\<lparr>canvas = 10, delay = 100\<rparr>, \<lparr>canvas = 11, delay = 100\<rparr>, \<lparr>canvas = 12, delay = 100\<rparr>]"

section \<open>Colour mutation math: operator fallback (pickBlendOp of the colour-math module)\<close>

text \<open>
  Compositing operators are the strings the 2D context uses. At module load the code
  probes the context: each of eight operators is assigned to
  \<open>globalCompositeOperation\<close> and read back. The context's answer is the predicate
  \<open>honours\<close>; no context at all (or an exception) gives the empty set.
\<close>

definition probedBlendOps :: "string list" where
  "probedBlendOps =
     [''color'', ''hue'', ''saturation'', ''luminosity'', ''overlay'', ''screen'', ''lighter'',
      ''source-atop'']"

definition SUPPORTED_BLEND_OPS :: "(string \<Rightarrow> bool) option \<Rightarrow> string set" where
  "SUPPORTED_BLEND_OPS ctx =
     (case ctx of None \<Rightarrow> {} | Some honours \<Rightarrow> set (filter honours probedBlendOps))"

definition pickBlendOp :: "string set \<Rightarrow> string \<Rightarrow> string" where
  "pickBlendOp supported desired =
     (if desired \<in> supported then desired
      else if ''overlay'' \<in> supported then ''overlay''
      else if ''screen'' \<in> supported then ''screen''
      else if ''lighter'' \<in> supported then ''lighter''
      else ''source-atop'')"

text \<open>
  The fallback order as the specification words it: color, the hue/saturation family,
  overlay, screen, lighter, flat over (source-atop). This definition follows the
  specification, not the code.
\<close>

definition specFallbackOrder :: "string list" where
  "specFallbackOrder =
     [''color'', ''hue'', ''saturation'', ''luminosity'', ''overlay'', ''screen'', ''lighter'',
      ''source-atop'']"

definition specPickBlendOp :: "string set \<Rightarrow> string \<Rightarrow> string" where
  "specPickBlendOp supported desired =
     (if desired \<in> supported then desired
      else case find (\<lambda>op. op \<in> supported) specFallbackOrder of
             Some op \<Rightarrow> op
           | None \<Rightarrow> ''source-atop'')"

section \<open>JavaScript values: lookups in object literals, numbers with NaN, exceptions\<close>

text \<open>
  The tables of the renderer (\<open>MUTATION_RENDER_ORDER\<close>, \<open>FILTERS\<close>, \<open>MUTATION_META\<close>,
  \<open>MUT_ICON_X_EXCEPT\<close>, \<open>MUT_ICON_Y_EXCEPT\<close>) are object literals, indexed with a
  string that comes from the slot. The prototype of an object literal is
  \<open>Object.prototype\<close>, so for a key that the literal does not list, \<open>table[key]\<close> finds
  the member of that name that every object inherits, when there is one: a function, or
  for \<open>__proto__\<close> the prototype object itself. Such a value is neither \<open>undefined\<close> nor
  \<open>null\<close>, and it is truthy: \<open>??\<close> keeps it and \<open>if (value)\<close> takes it. It has none of
  the fields of a table entry, and in arithmetic it converts to NaN.
\<close>

definition objectPrototypeNames :: "string list" where
  "objectPrototypeNames =
     [''constructor'', ''__defineGetter__'', ''__defineSetter__'', ''hasOwnProperty'',
      ''__lookupGetter__'', ''__lookupSetter__'', ''isPrototypeOf'', ''propertyIsEnumerable'',
      ''toString'', ''valueOf'', ''__proto__'', ''toLocaleString'']"

datatype 'v member = Own 'v | Inherited | Absent

definition objectGet :: "(string \<rightharpoonup> 'v) \<Rightarrow> string \<Rightarrow> 'v member" where
  "objectGet table key =
     (case table key of
        Some v \<Rightarrow> Own v
      | None \<Rightarrow> (if key \<in> set objectPrototypeNames then Inherited else Absent))"

text \<open>
  A JavaScript number is a real number or NaN: arithmetic is read as exact arithmetic
  on the reals, without the rounding of IEEE doubles, and NaN is what an operation
  gives when an operand is NaN, \<open>undefined\<close> or an inherited member. \<open>Math.min\<close>,
  \<open>Math.max\<close> and \<open>Math.ceil\<close> return NaN for a NaN argument.
\<close>

datatype jsnum = Num real | NaN


fun jsSub :: "jsnum \<Rightarrow> jsnum \<Rightarrow> jsnum" where
  "jsSub (Num a) (Num b) = Num (a - b)"
| "jsSub _ _ = NaN"

fun jsMul :: "jsnum \<Rightarrow> jsnum \<Rightarrow> jsnum" where
  "jsMul (Num a) (Num b) = Num (a * b)"
| "jsMul _ _ = NaN"





text \<open>
  The exceptions of the renderer: the \<open>TypeError\<close> of reading a property of
  \<open>undefined\<close>, and the rejection of the sprite loader for a URL.
\<close>

datatype jsError = TypeError | LoadRejected string

section \<open>Mutation pipeline: rendering order (resolveActiveMutations of the mutation definitions)\<close>

text \<open>The own entries of the object literal \<open>MUTATION_RENDER_ORDER\<close>.\<close>

definition MUTATION_RENDER_ORDER :: "string \<rightharpoonup> int" where
  "MUTATION_RENDER_ORDER =
     map_of [(''Wet'', 0), (''Chilled'', 1), (''Frozen'', 2), (''Thunderstruck'', 3),
             (''Dawnlit'', 4), (''Ambershine'', 5), (''Dawncharged'', 6),
             (''Ambercharged'', 7), (''Gold'', 8), (''Rainbow'', 9)]"

text \<open>
  \<open>MUTATION_RENDER_ORDER[a] ?? 50\<close>, as the number it is in the subtraction of the
  comparator: the priority of a listed id, 50 for an id that reads as \<open>undefined\<close>, and
  NaN for the name of an inherited member.
\<close>

definition renderPriority :: "string \<Rightarrow> jsnum" where
  "renderPriority a =
     (case objectGet MUTATION_RENDER_ORDER a of
        Own r \<Rightarrow> Num (real_of_int r)
      | Absent \<Rightarrow> Num 50
      | Inherited \<Rightarrow> NaN)"

text \<open>The number that a priority is; it is read only where no priority is NaN.\<close>

fun numberOf :: "jsnum \<Rightarrow> real" where
  "numberOf (Num v) = v"
| "numberOf NaN = 0"

text \<open>
  \<open>[...selected].sort((a, b) => priority a - priority b)\<close>. \<open>Array.prototype.sort\<close> is
  a stable sort, ascending in the comparator. When every priority is a number, the
  comparator orders by the priority and the result is \<open>sort_key\<close>, the stable insertion
  sort on the key. When a priority is NaN, the comparator returns NaN for that id: it is
  not a consistent comparison function, and the language leaves the order to the
  implementation, here the parameter \<open>engine\<close>.
\<close>

definition resolveActiveMutations :: "(string list \<Rightarrow> string list) \<Rightarrow> string list \<Rightarrow> string list" where
  "resolveActiveMutations engine selected =
     (if list_all (\<lambda>a. renderPriority a \<noteq> NaN) selected
      then sort_key (\<lambda>a. numberOf (renderPriority a)) selected
      else engine selected)"

definition knownMutation :: "string \<Rightarrow> bool" where
  "knownMutation a = (MUTATION_RENDER_ORDER a \<noteq> None)"

definition fixedRenderOrder :: "string list" where
  "fixedRenderOrder =
     [''Wet'', ''Chilled'', ''Frozen'', ''Thunderstruck'', ''Dawnlit'', ''Ambershine'',
      ''Dawncharged'', ''Ambercharged'', ''Gold'', ''Rainbow'']"

section \<open>Icon layout (computeIconLayout of src/renderer/icon-layout.ts)\<close>

text \<open>
  Widths, heights and scales are real numbers. The anchors of the sprite are JavaScript
  numbers: \<open>getSpriteFrameAnchor\<close> can return an object without \<open>x\<close> and \<open>y\<close>, and
  \<open>undefined\<close> in arithmetic is NaN.
\<close>

definition TILE_SIZE_WORLD :: real where
  "TILE_SIZE_WORLD = 256"

definition BASE_ICON_SCALE :: real where
  "BASE_ICON_SCALE = 0.5"

definition TALL_PLANT_MUTATION_ICON_SCALE_BOOST :: real where
  "TALL_PLANT_MUTATION_ICON_SCALE_BOOST = 2"

definition MUT_ICON_X_EXCEPT :: "string \<rightharpoonup> real" where
  "MUT_ICON_X_EXCEPT = map_of [(''Pepper'', 0.5), (''Banana'', 0.6)]"

definition MUT_ICON_Y_EXCEPT :: "string \<rightharpoonup> real" where
  "MUT_ICON_Y_EXCEPT =
     map_of [(''Banana'', 0.6), (''Carrot'', 0.6), (''Sunflower'', 0.5), (''Starweaver'', 0.5),
             (''FavaBean'', 0.25), (''BurrosTail'', 0.2)]"

text \<open>\<open>s.split('/')\<close>: the pieces between separators; never the empty list.\<close>

fun splitOn :: "char \<Rightarrow> string \<Rightarrow> string list" where
  "splitOn c [] = [[]]"
| "splitOn c (d # s) =
     (if d = c then [] # splitOn c s
      else (case splitOn c s of [] \<Rightarrow> [[d]] | p # ps \<Rightarrow> (d # p) # ps))"

definition baseNameOf :: "string \<Rightarrow> string" where
  "baseNameOf key = last (splitOn (CHR ''/'') key)"

record IconLayout =
  width :: real
  height :: real
  anchorX :: jsnum
  anchorY :: jsnum
  offset :: "jsnum \<times> jsnum"
  iconScale :: real

text \<open>
  The local constants \<open>targetX\<close> and \<open>targetY\<close> of \<open>computeIconLayout\<close>, as the numbers
  they are in the subtraction of the offset. For the name of an inherited member the
  table gives that member, \<open>??\<close> keeps it, and the number is NaN.
\<close>

definition targetX :: "jsnum \<Rightarrow> string \<Rightarrow> jsnum" where
  "targetX spriteAnchorX spriteKey =
     (case objectGet MUT_ICON_X_EXCEPT (baseNameOf spriteKey) of
        Own v \<Rightarrow> Num v
      | Absent \<Rightarrow> spriteAnchorX
      | Inherited \<Rightarrow> NaN)"

definition targetY :: "real \<Rightarrow> real \<Rightarrow> jsnum \<Rightarrow> string \<Rightarrow> jsnum" where
  "targetY spriteWidth spriteHeight spriteAnchorY spriteKey =
     (let isVerticalShape = spriteHeight > spriteWidth * 1.5
      in case objectGet MUT_ICON_Y_EXCEPT (baseNameOf spriteKey) of
           Own v \<Rightarrow> Num v
         | Absent \<Rightarrow> (if isVerticalShape then spriteAnchorY else Num 0.4)
         | Inherited \<Rightarrow> NaN)"

definition computeIconLayout ::
  "real \<Rightarrow> real \<Rightarrow> jsnum \<Rightarrow> jsnum \<Rightarrow> string \<Rightarrow> bool \<Rightarrow> IconLayout" where
  "computeIconLayout spriteWidth spriteHeight spriteAnchorX spriteAnchorY spriteKey isTall =
     (let tx = targetX spriteAnchorX spriteKey;
          ty = targetY spriteWidth spriteHeight spriteAnchorY spriteKey;
          minDimension = min spriteWidth spriteHeight;
          scaleFactor = min 1.5 (minDimension / TILE_SIZE_WORLD);
          iconScale0 = BASE_ICON_SCALE * scaleFactor
      in \<lparr>width = spriteWidth, height = spriteHeight,
          anchorX = spriteAnchorX, anchorY = spriteAnchorY,
          offset = (jsMul (jsSub tx spriteAnchorX) (Num spriteWidth),
                    jsMul (jsSub ty spriteAnchorY) (Num spriteHeight)),
          iconScale = (if isTall then iconScale0 * TALL_PLANT_MUTATION_ICON_SCALE_BOOST
                       else iconScale0)\<rparr>)"

section \<open>Render cache (class RenderCache of src/renderer/render-cache.ts)\<close>

text \<open>
  A cache entry holds a canvas and the clock reading of its last use. The \<open>Map\<close> of
  entries is a list of key and entry pairs in insertion order, which is the order in
  which a \<open>Map\<close> is iterated; keys are distinct. \<open>Date.now()\<close> is an input of every
  operation that reads the clock. Releasing a canvas (setting its width and height to 0)
  is recorded in the list \<open>released\<close>.
\<close>

definition MAX_ENTRIES :: nat where
  "MAX_ENTRIES = 300"

record 'c CacheEntry =
  ecanvas :: 'c
  lastUsed :: int

record 'c RenderCache =
  entries :: "(string \<times> 'c CacheEntry) list"
  released :: "'c list"

definition newRenderCache :: "'c RenderCache" where
  "newRenderCache = \<lparr>entries = [], released = []\<rparr>"

text \<open>\<open>Map.set\<close>: an existing key keeps its place, a new key goes to the end.\<close>

fun mapSet :: "string \<Rightarrow> 'v \<Rightarrow> (string \<times> 'v) list \<Rightarrow> (string \<times> 'v) list" where
  "mapSet k v [] = [(k, v)]"
| "mapSet k v ((k', v') # es) = (if k' = k then (k, v) # es else (k', v') # mapSet k v es)"

text \<open>\<open>Map.delete\<close>.\<close>

fun mapDelete :: "string \<Rightarrow> (string \<times> 'v) list \<Rightarrow> (string \<times> 'v) list" where
  "mapDelete k [] = []"
| "mapDelete k ((k', v') # es) = (if k' = k then es else (k', v') # mapDelete k es)"

text \<open>
  \<open>get\<close>: a hit writes the clock reading into the entry (the entry object is shared with
  the map, so the map sees the write) and returns the canvas; a miss returns null.
\<close>

definition RenderCache_get :: "int \<Rightarrow> string \<Rightarrow> 'c RenderCache \<Rightarrow> 'c RenderCache \<times> 'c option" where
  "RenderCache_get now key c =
     (case map_of (entries c) key of
        None \<Rightarrow> (c, None)
      | Some entry \<Rightarrow>
          (c\<lparr>entries := mapSet key (entry\<lparr>lastUsed := now\<rparr>) (entries c)\<rparr>,
           Some (ecanvas entry)))"

text \<open>
  The scan of \<open>evictLru\<close>: \<open>oldest\<close> starts at \<open>Infinity\<close> (here \<open>None\<close>, above every
  clock reading) and \<open>oldestKey\<close> at the empty string; an entry replaces them when its
  time is strictly less than \<open>oldest\<close>.
\<close>

fun scanOldest :: "(string \<times> 'c CacheEntry) list \<Rightarrow> int option \<Rightarrow> string \<Rightarrow> string" where
  "scanOldest [] oldest oldestKey = oldestKey"
| "scanOldest ((k, v) # es) oldest oldestKey =
     (if (case oldest of None \<Rightarrow> True | Some t \<Rightarrow> lastUsed v < t)
      then scanOldest es (Some (lastUsed v)) k
      else scanOldest es oldest oldestKey)"

text \<open>\<open>if (oldestKey)\<close>: the empty string is falsy, so nothing is deleted for it.\<close>

definition evictLru :: "'c RenderCache \<Rightarrow> 'c RenderCache" where
  "evictLru c =
     (let oldestKey = scanOldest (entries c) None ''''
      in if oldestKey \<noteq> '''' then
           (case map_of (entries c) oldestKey of
              Some entry \<Rightarrow>
                c\<lparr>entries := mapDelete oldestKey (entries c),
                  released := released c @ [ecanvas entry]\<rparr>
            | None \<Rightarrow> c\<lparr>entries := mapDelete oldestKey (entries c)\<rparr>)
         else c)"

definition RenderCache_set :: "int \<Rightarrow> string \<Rightarrow> 'c \<Rightarrow> 'c RenderCache \<Rightarrow> 'c RenderCache" where
  "RenderCache_set now key cv c =
     (let c1 = (if length (entries c) \<ge> MAX_ENTRIES then evictLru c else c)
      in c1\<lparr>entries := mapSet key \<lparr>ecanvas = cv, lastUsed = now\<rparr> (entries c1)\<rparr>)"

definition RenderCache_clear :: "'c RenderCache \<Rightarrow> 'c RenderCache" where
  "RenderCache_clear c =
     c\<lparr>entries := [], released := released c @ map (\<lambda>e. ecanvas (snd e)) (entries c)\<rparr>"

text \<open>A use of the cache: one operation together with the clock reading at that moment.\<close>

datatype 'c cacheOp = Get string | Set string 'c | Clear

fun applyCacheOp :: "int \<times> 'c cacheOp \<Rightarrow> 'c RenderCache \<Rightarrow> 'c RenderCache" where
  "applyCacheOp (now, Get key) c = fst (RenderCache_get now key c)"
| "applyCacheOp (now, Set key cv) c = RenderCache_set now key cv c"
| "applyCacheOp (now, Clear) c = RenderCache_clear c"

fun runCacheOps :: "(int \<times> 'c cacheOp) list \<Rightarrow> 'c RenderCache \<Rightarrow> 'c RenderCache" where
  "runCacheOps [] c = c"
| "runCacheOps (op # ops) c = runCacheOps ops (applyCacheOp op c)"

fun setsEmptyKey :: "'c cacheOp \<Rightarrow> bool" where
  "setsEmptyKey (Set key cv) = (key = '''')"
| "setsEmptyKey _ = False"

text \<open>
  Concrete uses: \<open>fingerprint i\<close> are distinct non-empty keys; \<open>fillOps t n\<close> inserts
  \<open>n\<close> entries, all at clock reading \<open>t\<close>.
\<close>

definition fingerprint :: "nat \<Rightarrow> string" where
  "fingerprint i = replicate (Suc i) (CHR ''k'')"

definition fillOps :: "int \<Rightarrow> nat \<Rightarrow> (int \<times> nat cacheOp) list" where
  "fillOps t n = map (\<lambda>i. (t, Set (fingerprint i) i)) [0..<n]"

definition touchThenInsertSameTick :: "(int \<times> nat cacheOp) list" where
  "touchThenInsertSameTick =
     fillOps 1000 MAX_ENTRIES @ [(1000, Get (fingerprint 0)), (1000, Set (fingerprint MAX_ENTRIES) MAX_ENTRIES)]"

definition touchThenInsertLater :: "(int \<times> nat cacheOp) list" where
  "touchThenInsertLater =
     fillOps 1000 MAX_ENTRIES @ [(1001, Get (fingerprint 0)), (1002, Set (fingerprint MAX_ENTRIES) MAX_ENTRIES)]"

text \<open>
  \<open>lruSplit es pre k e post\<close>: the entry \<open>(k, e)\<close> is the first one of \<open>es\<close> whose time
  is least: every entry before it has a strictly greater time, every entry after it a
  time at least as great.
\<close>

definition lruSplit ::
  "(string \<times> 'c CacheEntry) list \<Rightarrow> (string \<times> 'c CacheEntry) list \<Rightarrow> string \<Rightarrow> 'c CacheEntry \<Rightarrow>
   (string \<times> 'c CacheEntry) list \<Rightarrow> bool" where
  "lruSplit es pre k e post \<longleftrightarrow>
     es = pre @ (k, e) # post
     \<and> (\<forall>x \<in> set pre. lastUsed e < lastUsed (snd x))
     \<and> (\<forall>x \<in> set post. lastUsed e \<le> lastUsed (snd x))"

definition cacheInv :: "'c RenderCache \<Rightarrow> bool" where
  "cacheInv c \<longleftrightarrow>
     distinct (map fst (entries c)) \<and> length (entries c) \<le> MAX_ENTRIES
     \<and> '''' \<notin> fst ` set (entries c)"

definition filled :: "int \<Rightarrow> nat \<Rightarrow> (string \<times> nat CacheEntry) list" where
  "filled t n = map (\<lambda>i. (fingerprint i, \<lparr>ecanvas = i, lastUsed = t\<rparr>)) [0..<n]"

text \<open>A use in which the oldest entry has the empty string as key.\<close>

definition emptyKeyOldest :: "(int \<times> nat cacheOp) list" where
  "emptyKeyOldest = (0, Set '''' 0) # fillOps 1 MAX_ENTRIES"

section \<open>Canvas bitmaps and compositing (the 2D context operations the engine calls)\<close>

text \<open>
  A canvas bitmap is a row-major list of pixels. A pixel holds its alpha and its colour
  channels premultiplied by alpha, all in \<open>[0, 1]\<close>; this is the form in which the
  compositing operators are defined, and the form the comment in
  src/renderer/mutation-engine.ts uses
  (\<open>result = src \<times> \<alpha>s \<times> \<alpha>d + dst \<times> \<alpha>d \<times> (1 - \<alpha>s), \<alpha>o = \<alpha>d\<close>).
  Channels are real numbers: the blend algebra is modelled, not the 8-bit storage.
  A CSS colour string is represented by the colour it denotes.
\<close>

record pixel =
  pr :: real
  pg :: real
  pb :: real
  pa :: real

record colour =
  red :: real
  green :: real
  blue :: real
  opacity :: real

record canvas2d =
  cwidth :: nat
  cheight :: nat
  pixels :: "pixel list"

definition rgb :: "nat \<Rightarrow> nat \<Rightarrow> nat \<Rightarrow> colour" where
  "rgb r g b = \<lparr>red = real r / 255, green = real g / 255, blue = real b / 255, opacity = 1\<rparr>"

definition transparent :: colour where
  "transparent = \<lparr>red = 0, green = 0, blue = 0, opacity = 0\<rparr>"

definition white :: colour where
  "white = rgb 255 255 255"

definition clearPixel :: pixel where
  "clearPixel = \<lparr>pr = 0, pg = 0, pb = 0, pa = 0\<rparr>"

text \<open>A colour drawn with \<open>globalAlpha = g\<close>, as a premultiplied source pixel.\<close>

definition paint :: "real \<Rightarrow> colour \<Rightarrow> pixel" where
  "paint g c =
     \<lparr>pr = red c * (opacity c * g), pg = green c * (opacity c * g), pb = blue c * (opacity c * g), pa = opacity c * g\<rparr>"

text \<open>A source pixel drawn with \<open>globalAlpha = g\<close>.\<close>

definition fade :: "real \<Rightarrow> pixel \<Rightarrow> pixel" where
  "fade g s = \<lparr>pr = pr s * g, pg = pg s * g, pb = pb s * g, pa = pa s * g\<rparr>"

text \<open>
  The straight (not premultiplied) value of a channel, as \<open>getImageData\<close> reports it;
  a fully transparent pixel reads as transparent black.
\<close>

definition straight :: "real \<Rightarrow> real \<Rightarrow> real" where
  "straight c alpha = (if alpha = 0 then 0 else c / alpha)"

text \<open>
  Porter-Duff compositing of a source pixel \<open>s\<close> onto a backdrop pixel \<open>d\<close> with the
  fractions \<open>Fa\<close> and \<open>Fb\<close>: \<open>co = cs Fa + cb Fb\<close>, \<open>\<alpha>o = \<alpha>s Fa + \<alpha>b Fb\<close>.
\<close>

definition porterDuff :: "real \<Rightarrow> real \<Rightarrow> pixel \<Rightarrow> pixel \<Rightarrow> pixel" where
  "porterDuff Fa Fb s d =
     \<lparr>pr = pr s * Fa + pr d * Fb, pg = pg s * Fa + pg d * Fb, pb = pb s * Fa + pb d * Fb,
      pa = pa s * Fa + pa d * Fb\<rparr>"

text \<open>
  What the runtime contributes and the repository does not define: how a linear gradient
  colours a pixel (gradient line, colour stops, pixel position), how it composites with
  an operator other than the three Porter-Duff operators the engine names literally,
  which operators the probe found, and the order in which \<open>Array.prototype.sort\<close>
  leaves a list of mutation ids when the comparator is not consistent.
\<close>

record platform =
  gradientColourAt :: "real \<times> real \<times> real \<times> real \<Rightarrow> (real \<times> colour) list \<Rightarrow> nat \<times> nat \<Rightarrow> colour"
  blendPixel :: "string \<Rightarrow> pixel \<Rightarrow> pixel \<Rightarrow> pixel"
  supportedOps :: "string set"
  engineSort :: "string list \<Rightarrow> string list"

definition compositePixel :: "platform \<Rightarrow> string \<Rightarrow> pixel \<Rightarrow> pixel \<Rightarrow> pixel" where
  "compositePixel P operator s d =
     (if operator = ''source-over'' then porterDuff 1 (1 - pa s) s d
      else if operator = ''source-atop'' then porterDuff (pa d) (1 - pa s) s d
      else if operator = ''destination-in'' then porterDuff 0 (pa s) s d
      else blendPixel P operator s d)"

text \<open>
  \<open>globalAlpha = v\<close> is ignored outside \<open>[0, 1]\<close>; \<open>if (f.a != null) ctx.globalAlpha = f.a\<close>
  starts from the default 1 of a context whose state nobody changed.
\<close>

definition globalAlphaOf :: "real option \<Rightarrow> real" where
  "globalAlphaOf v = (case v of None \<Rightarrow> 1 | Some x \<Rightarrow> if 0 \<le> x \<and> x \<le> 1 then x else 1)"

text \<open>
  \<open>document.createElement('canvas')\<close> with a width and a height: transparent black.
\<close>

definition blankCanvas :: "nat \<Rightarrow> nat \<Rightarrow> canvas2d" where
  "blankCanvas w h = \<lparr>cwidth = w, cheight = h, pixels = replicate (w * h) clearPixel\<rparr>"

text \<open>
  \<open>ctx.drawImage(src, 0, 0)\<close> onto a canvas of the same size, under an operator and a
  global alpha. Every canvas the mutation code draws is created with the size of the
  canvas it is drawn onto, so the drawing is pixel by pixel.
\<close>

definition drawImage :: "platform \<Rightarrow> string \<Rightarrow> real \<Rightarrow> canvas2d \<Rightarrow> canvas2d \<Rightarrow> canvas2d" where
  "drawImage P operator g src dst =
     dst\<lparr>pixels := map2 (\<lambda>s d. compositePixel P operator (fade g s) d) (pixels src) (pixels dst)\<rparr>"

text \<open>\<open>ctx.fillRect(0, 0, width, height)\<close> with a colour as fill style: the whole canvas.\<close>

definition fillRectAll :: "platform \<Rightarrow> string \<Rightarrow> real \<Rightarrow> colour \<Rightarrow> canvas2d \<Rightarrow> canvas2d" where
  "fillRectAll P operator g c dst =
     dst\<lparr>pixels := map (\<lambda>d. compositePixel P operator (paint g c) d) (pixels dst)\<rparr>"

section \<open>Colour mutation math: gradients and the masked filter\<close>

record FilterDef =
  f_op :: string
  f_colors :: "colour list"
  f_a :: "real option"
  f_ang :: "real option"
  f_angTall :: "real option"
  f_masked :: bool

text \<open>The end points \<open>(x0, y0, x1, y1)\<close> of the gradient line.\<close>

definition angleGrad :: "real \<Rightarrow> real \<Rightarrow> real \<Rightarrow> bool \<Rightarrow> real \<times> real \<times> real \<times> real" where
  "angleGrad w h ang fullSpan =
     (let rad = ((ang - 90) * pi) / 180; cx = w / 2; cy = h / 2
      in if \<not> fullSpan then
           (let r2 = min w h / 2
            in (cx - cos rad * r2, cy - sin rad * r2, cx + cos rad * r2, cy + sin rad * r2))
         else
           (let dx = cos rad; dy = sin rad; r = (\<bar>dx\<bar> * w) / 2 + (\<bar>dy\<bar> * h) / 2
            in (cx - dx * r, cy - dy * r, cx + dx * r, cy + dy * r)))"

definition gradStops :: "colour list \<Rightarrow> (real \<times> colour) list" where
  "gradStops cols =
     (if length cols = 1 then [(0, cols ! 0), (1, cols ! 0)]
      else map (\<lambda>i. (real i / (real (length cols) - 1), cols ! i)) [0..<length cols])"

text \<open>
  \<open>fillGrad\<close> on a fresh canvas: the gradient is the fill style of a \<open>fillRect\<close> over
  the whole canvas, with the default operator and alpha.
\<close>

definition fillGrad ::
  "platform \<Rightarrow> nat \<Rightarrow> nat \<Rightarrow> colour list \<Rightarrow> real option \<Rightarrow> bool \<Rightarrow> canvas2d \<Rightarrow> canvas2d" where
  "fillGrad P w h colors ang fullSpan dst =
     (let cols = (if colors \<noteq> [] then colors else [white]);
          g = (case ang of
                 Some a \<Rightarrow> angleGrad (real w) (real h) a fullSpan
               | None \<Rightarrow> (0, 0, 0, real h))
      in dst\<lparr>pixels :=
           map (\<lambda>(i, d). compositePixel P ''source-over''
                            (paint 1 (gradientColourAt P g (gradStops cols) (i mod w, i div w))) d)
               (zip [0..<w * h] (pixels dst))\<rparr>)"

text \<open>The canvas \<open>m\<close> of \<open>applyMaskedFilter\<close>: the gradient, cut to the alpha of \<open>originalBase\<close>.\<close>

definition gradientMask :: "platform \<Rightarrow> canvas2d \<Rightarrow> FilterDef \<Rightarrow> bool \<Rightarrow> canvas2d" where
  "gradientMask P originalBase filt isTall =
     (let ang = (if isTall \<and> f_angTall filt \<noteq> None then f_angTall filt else f_ang filt);
          fullSpan = (isTall \<and> ang \<noteq> None);
          w = cwidth originalBase; h = cheight originalBase;
          m = fillGrad P w h (f_colors filt) ang fullSpan (blankCanvas w h)
      in drawImage P ''destination-in'' 1 originalBase m)"

text \<open>The canvas \<open>blended\<close>: a clean copy of \<open>originalBase\<close> with the mask blended onto it.\<close>

definition blendedBase :: "platform \<Rightarrow> canvas2d \<Rightarrow> FilterDef \<Rightarrow> bool \<Rightarrow> canvas2d" where
  "blendedBase P originalBase filt isTall =
     (let w = cwidth originalBase; h = cheight originalBase;
          blendOp = pickBlendOp (supportedOps P) (f_op filt);
          blended = drawImage P ''source-over'' 1 originalBase (blankCanvas w h)
      in drawImage P blendOp (globalAlphaOf (f_a filt))
           (gradientMask P originalBase filt isTall) blended)"

definition applyMaskedFilter ::
  "platform \<Rightarrow> canvas2d \<Rightarrow> canvas2d \<Rightarrow> FilterDef \<Rightarrow> bool \<Rightarrow> canvas2d" where
  "applyMaskedFilter P ctx originalBase filt isTall =
     drawImage P ''source-atop'' 1 (blendedBase P originalBase filt isTall) ctx"

section \<open>Mutation pipeline (applyMutations of src/renderer/mutation-engine.ts)\<close>

definition FILTERS :: "string \<rightharpoonup> FilterDef" where
  "FILTERS =
     map_of
       [(''Gold'', \<lparr>f_op = ''source-atop'', f_colors = [rgb 235 200 0], f_a = Some 0.7,
                   f_ang = None, f_angTall = None, f_masked = False\<rparr>),
        (''Rainbow'', \<lparr>f_op = ''color'',
                      f_colors = [rgb 255 23 68, rgb 255 145 0, rgb 255 234 0, rgb 0 230 118,
                                  rgb 41 121 255, rgb 213 0 249],
                      f_a = None, f_ang = Some 130, f_angTall = Some 0, f_masked = True\<rparr>),
        (''Wet'', \<lparr>f_op = ''source-atop'', f_colors = [rgb 50 180 200], f_a = Some 0.25,
                  f_ang = None, f_angTall = None, f_masked = False\<rparr>),
        (''Chilled'', \<lparr>f_op = ''source-atop'', f_colors = [rgb 100 160 210], f_a = Some 0.45,
                      f_ang = None, f_angTall = None, f_masked = False\<rparr>),
        (''Frozen'', \<lparr>f_op = ''source-atop'', f_colors = [rgb 100 130 220], f_a = Some 0.5,
                     f_ang = None, f_angTall = None, f_masked = False\<rparr>),
        (''Thunderstruck'', \<lparr>f_op = ''source-atop'', f_colors = [transparent], f_a = Some 0,
                            f_ang = None, f_angTall = None, f_masked = False\<rparr>),
        (''Dawnlit'', \<lparr>f_op = ''source-atop'', f_colors = [rgb 209 70 231], f_a = Some 0.5,
                      f_ang = None, f_angTall = None, f_masked = False\<rparr>),
        (''Ambershine'', \<lparr>f_op = ''source-atop'', f_colors = [rgb 190 100 40], f_a = Some 0.5,
                         f_ang = None, f_angTall = None, f_masked = False\<rparr>),
        (''Dawncharged'', \<lparr>f_op = ''source-atop'', f_colors = [rgb 140 80 200], f_a = Some 0.5,
                          f_ang = None, f_angTall = None, f_masked = False\<rparr>),
        (''Ambercharged'', \<lparr>f_op = ''source-atop'', f_colors = [rgb 170 60 25], f_a = Some 0.5,
                           f_ang = None, f_angTall = None, f_masked = False\<rparr>)]"

record customTint =
  tintColor :: colour
  tintOpacity :: real

text \<open>The body of the loop over the pipeline: one step on the accumulating canvas.\<close>

definition applyStep :: "platform \<Rightarrow> canvas2d \<Rightarrow> bool \<Rightarrow> canvas2d \<Rightarrow> FilterDef \<Rightarrow> canvas2d" where
  "applyStep P originalBase isTall cv f =
     (if f_masked f then applyMaskedFilter P cv originalBase f isTall
      else fillRectAll P ''source-atop'' (globalAlphaOf (f_a f))
             (case f_colors f of [] \<Rightarrow> white | c # _ \<Rightarrow> c) cv)"

text \<open>
  A step of the pipeline holds what \<open>FILTERS[mutId]\<close> gave: a filter definition, or, for
  the name of an inherited member, that member (it is truthy, so the step is pushed).
\<close>

datatype stepFilter = FilterOf FilterDef | InheritedMember

text \<open>
  The loop over the pipeline. The canvas is changed in place, so the result is the canvas
  as the loop leaves it, and the exception if one is thrown. A step whose filter is an
  inherited member has no field \<open>masked\<close>, so the non-masked branch is taken; after
  \<open>ctx.save()\<close> and the assignment of the operator, \<open>f.colors[0]\<close> reads an index of
  \<open>undefined\<close> and throws a \<open>TypeError\<close>, before anything is drawn.
\<close>

fun applySteps ::
  "platform \<Rightarrow> canvas2d \<Rightarrow> bool \<Rightarrow> (string \<times> stepFilter) list \<Rightarrow> canvas2d
     \<Rightarrow> canvas2d \<times> jsError option" where
  "applySteps P originalBase isTall [] cv = (cv, None)"
| "applySteps P originalBase isTall (step # steps) cv =
     (case snd step of
        FilterOf f \<Rightarrow> applySteps P originalBase isTall steps (applyStep P originalBase isTall cv f)
      | InheritedMember \<Rightarrow> (cv, Some TypeError))"

definition buildPipeline ::
  "(string list \<Rightarrow> string list) \<Rightarrow> string list \<Rightarrow> customTint option
     \<Rightarrow> (string \<times> stepFilter) list" where
  "buildPipeline engine selectedMutations tint =
     concat (map (\<lambda>mutId. case objectGet FILTERS mutId of
                             Own filt \<Rightarrow> [(mutId, FilterOf filt)]
                           | Inherited \<Rightarrow> [(mutId, InheritedMember)]
                           | Absent \<Rightarrow> [])
                 (resolveActiveMutations engine selectedMutations))
     @ (case tint of
          None \<Rightarrow> []
        | Some t \<Rightarrow>
            (if tintOpacity t > 0 then
               [(''Custom'', FilterOf \<lparr>f_op = ''source-atop'', f_colors = [tintColor t],
                                       f_a = Some (tintOpacity t), f_ang = None,
                                       f_angTall = None, f_masked = True\<rparr>)]
             else []))"

text \<open>
  The snapshot \<open>originalBase\<close>: a fresh canvas of the same size with the base drawn
  onto it.
\<close>

definition snapshotOf :: "platform \<Rightarrow> canvas2d \<Rightarrow> canvas2d" where
  "snapshotOf P baseCanvas =
     drawImage P ''source-over'' 1 baseCanvas
       (blankCanvas (cwidth baseCanvas) (cheight baseCanvas))"

definition applyMutations ::
  "platform \<Rightarrow> canvas2d \<Rightarrow> string list \<Rightarrow> bool \<Rightarrow> customTint option
     \<Rightarrow> canvas2d \<times> jsError option" where
  "applyMutations P baseCanvas selectedMutations isTall tint =
     (let pipeline = buildPipeline (engineSort P) selectedMutations tint
      in if pipeline = [] then (baseCanvas, None)
         else applySteps P (snapshotOf P baseCanvas) isTall pipeline baseCanvas)"

definition wellFormed :: "canvas2d \<Rightarrow> bool" where
  "wellFormed cv \<longleftrightarrow> length (pixels cv) = cwidth cv * cheight cv"

text \<open>
  A runtime for concrete runs: the gradient takes the colour of its first stop, every
  probed operator is supported, a blend mode composites like source-over, and a sort
  whose order the language leaves open returns the list as it is.
\<close>

definition simplePlatform :: platform where
  "simplePlatform =
     \<lparr>gradientColourAt = (\<lambda>line stops pos. case stops of [] \<Rightarrow> transparent | s # _ \<Rightarrow> snd s),
      blendPixel = (\<lambda>operator s d. porterDuff 1 (1 - pa s) s d),
      supportedOps = set probedBlendOps,
      engineSort = (\<lambda>selected. selected)\<rparr>"

definition opaqueRed :: pixel where
  "opaqueRed = \<lparr>pr = 1, pg = 0, pb = 0, pa = 1\<rparr>"

definition halfBlue :: pixel where
  "halfBlue = \<lparr>pr = 0, pg = 0, pb = 0.5, pa = 0.5\<rparr>"

definition threePixels :: canvas2d where
  "threePixels = \<lparr>cwidth = 3, cheight = 1, pixels = [opaqueRed, halfBlue, clearPixel]\<rparr>"

section \<open>Animated-image subsystem: the decoder (decodeGif of src/gif/decoder.ts)\<close>

text \<open>
  What the code reads from the third-party reader (declared in src/omggif.d.ts): the
  logical size, the frame descriptors, and for each frame the pixel buffer after
  \<open>decodeAndBlitFrameRGBA\<close> has written the frame into a zeroed buffer of the logical
  size. \<open>blitFrame reader i k\<close> is pixel \<open>k\<close> of that buffer for frame \<open>i\<close>: the frame's
  own pixel, or transparent black where the frame draws nothing.
\<close>

record frameInfo =
  fx :: nat
  fy :: nat
  fwidth :: nat
  fheight :: nat
  fdelay :: int
  disposal :: nat

record GifReader =
  gwidth :: nat
  gheight :: nat
  frameInfos :: "frameInfo list"
  blitFrame :: "nat \<Rightarrow> nat \<Rightarrow> pixel"

record DecodedGif =
  gifWidth :: nat
  gifHeight :: nat
  decodedFrames :: "canvas2d GifFrame list"
  loopCount :: nat

text \<open>Pixel \<open>k\<close> of a canvas of width \<open>w\<close> lies in the rectangle \<open>(x, y, rw, rh)\<close>.\<close>

definition inRect :: "nat \<Rightarrow> nat \<Rightarrow> nat \<Rightarrow> nat \<Rightarrow> nat \<Rightarrow> nat \<Rightarrow> bool" where
  "inRect w x y rw rh k \<longleftrightarrow>
     x \<le> k mod w \<and> k mod w < x + rw \<and> y \<le> k div w \<and> k div w < y + rh"

text \<open>\<open>ctx.clearRect(x, y, rw, rh)\<close>: the pixels of the rectangle become transparent black.\<close>

definition clearRect :: "nat \<Rightarrow> nat \<Rightarrow> nat \<Rightarrow> nat \<Rightarrow> canvas2d \<Rightarrow> canvas2d" where
  "clearRect x y rw rh cv =
     cv\<lparr>pixels :=
          map (\<lambda>(k, p). if inRect (cwidth cv) x y rw rh k then clearPixel else p)
              (zip [0..<length (pixels cv)] (pixels cv))\<rparr>"

text \<open>The temporary canvas of frame \<open>i\<close>: \<open>putImageData\<close> of the decoded buffer.\<close>

definition tempCanvas :: "GifReader \<Rightarrow> nat \<Rightarrow> canvas2d" where
  "tempCanvas reader i =
     \<lparr>cwidth = gwidth reader, cheight = gheight reader,
      pixels = map (blitFrame reader i) [0..<gwidth reader * gheight reader]\<rparr>"

text \<open>
  One iteration of the loop of \<open>decodeGif\<close>, on the compositing canvas and the frames
  pushed so far. \<open>getImageData\<close> followed later by \<open>putImageData\<close> of the whole canvas
  restores the canvas as it was.
\<close>

definition decodeStep ::
  "platform \<Rightarrow> GifReader \<Rightarrow> canvas2d \<times> canvas2d GifFrame list \<Rightarrow> nat \<Rightarrow>
   canvas2d \<times> canvas2d GifFrame list" where
  "decodeStep P reader st i =
     (let compCanvas = fst st; frames = snd st;
          info = frameInfos reader ! i;
          delay = max (fdelay info * 10) 20;
          temp = tempCanvas reader i;
          savedData = (if disposal info = 3 then Some compCanvas else None);
          comp1 = (if disposal info = 2
                   then clearRect (fx info) (fy info) (fwidth info) (fheight info) compCanvas
                   else compCanvas);
          comp2 = drawImage P ''source-over'' 1 temp comp1;
          outputCanvas =
            drawImage P ''source-over'' 1 comp2 (blankCanvas (gwidth reader) (gheight reader));
          comp3 = (if disposal info = 2
                   then clearRect (fx info) (fy info) (fwidth info) (fheight info) comp2
                   else if disposal info = 3 then
                     (case savedData of Some saved \<Rightarrow> saved | None \<Rightarrow> comp2)
                   else comp2)
      in (comp3, frames @ [\<lparr>canvas = outputCanvas, delay = delay\<rparr>]))"

text \<open>
  The loop \<open>for (let i = 0; i < numFrames; i++)\<close>, started on a fresh compositing canvas
  and an empty frame list; \<open>decodeState P reader n\<close> is the state after \<open>n\<close> iterations.
\<close>

definition decodeState :: "platform \<Rightarrow> GifReader \<Rightarrow> nat \<Rightarrow> canvas2d \<times> canvas2d GifFrame list" where
  "decodeState P reader n =
     foldl (decodeStep P reader) (blankCanvas (gwidth reader) (gheight reader), []) [0..<n]"

definition decodeGif :: "platform \<Rightarrow> GifReader \<Rightarrow> DecodedGif" where
  "decodeGif P reader =
     \<lparr>gifWidth = gwidth reader, gifHeight = gheight reader,
      decodedFrames = snd (decodeState P reader (length (frameInfos reader))),
      loopCount = 0\<rparr>"

text \<open>
  A concrete animation: a 10 by 10 canvas and three frames; only the second frame draws,
  an opaque red 4 by 4 square at (2, 2), and its disposal is restore to background.
  Pixel 55 is the pixel at (5, 5), inside the square.
\<close>

definition squareGif :: GifReader where
  "squareGif =
     \<lparr>gwidth = 10, gheight = 10,
      frameInfos =
        [\<lparr>fx = 0, fy = 0, fwidth = 10, fheight = 10, fdelay = 10, disposal = 0\<rparr>,
         \<lparr>fx = 2, fy = 2, fwidth = 4, fheight = 4, fdelay = 10, disposal = 2\<rparr>,
         \<lparr>fx = 0, fy = 0, fwidth = 10, fheight = 10, fdelay = 0, disposal = 0\<rparr>],
      blitFrame = (\<lambda>i k. if i = 1 \<and> inRect 10 2 2 4 4 k then opaqueRed else clearPixel)\<rparr>"

text \<open>The compositing canvas keeps the logical size of the animation.\<close>

definition compOk :: "GifReader \<Rightarrow> canvas2d \<Rightarrow> bool" where
  "compOk reader cv \<longleftrightarrow>
     cwidth cv = gwidth reader \<and> length (pixels cv) = gwidth reader * gheight reader"

section \<open>Icon and overlay resolution (findIconKey, MUTATION_META, isTallKey)\<close>











section \<open>Slot compositor (renderSlot of the canvas renderer)\<close>

text \<open>
  The fields of a slot that \<open>renderSlot\<close> reads. An image element is represented like a
  canvas: its natural width and height and its pixels.
\<close>

record Slot =
  slotType :: string
  spriteKey :: string
  spriteUrl :: string
  mutations :: "string list"
  optionIcons :: bool
  optionOverlays :: bool
  customTintColor :: string
  customTintOpacity :: real
  slotScale :: real
  slotRotation :: real
  cosmeticLayers :: "(string \<rightharpoonup> string) option"
  gifFrames :: "canvas2d GifFrame list option"
  isAnimated :: bool















































section \<open>Frame scheduler: seek\<close>

text \<open>
  C6. For a non-empty frame list of length \<open>n\<close>, a registered callback and any integer
  \<open>i\<close>, \<open>seek i\<close> sets the current index to \<open>i\<close> clamped into \<open>[0, n - 1]\<close> and runs
  the callback at once with the frame at that index and the index. Nothing else of the
  scheduler changes, and the play state (\<open>playing\<close>, \<open>animationId\<close>) is not consulted:
  the statement holds in every scheduler state.
\<close>

theorem seek_clamps_and_calls:
  assumes "frames s \<noteq> []" and "onFrame s = Some cb"
  shows "seek i s w =
           (s\<lparr>currentIndex := clampIndex (length (frames s)) i\<rparr>,
            cb (frames s ! nat (clampIndex (length (frames s)) i))
               (clampIndex (length (frames s)) i) w)
         \<and> 0 \<le> clampIndex (length (frames s)) i
         \<and> clampIndex (length (frames s)) i \<le> int (length (frames s)) - 1"
proof -
  let ?n = "length (frames s)"
  let ?c = "clampIndex ?n i"
  from assms(1) have n: "0 < ?n" by simp
  have c: "max 0 (min i (int ?n - 1)) = ?c"
    using n by (auto simp: clampIndex_def)
  have rng: "0 \<le> ?c \<and> ?c < int ?n"
    using n by (auto simp: clampIndex_def)
  then have fr: "frameAt (frames s) ?c = Some (frames s ! nat ?c)"
    by (simp add: frameAt_def)
  show ?thesis
    using rng fr assms(2) by (simp add: seek_def c Let_def)
qed

theorem seek_clamps_and_calls_witness:
  "seek 1 (setCallback logCall (setFrames threeFrames newScheduler)) []
     = ((setCallback logCall (setFrames threeFrames newScheduler))\<lparr>currentIndex := 1\<rparr>,
        [(\<lparr>canvas = 11, delay = 100\<rparr>, 1)])
   \<and> seek 7 (fst (play 0 1 (setCallback logCall (setFrames threeFrames newScheduler)) [])) []
     = ((fst (play 0 1 (setCallback logCall (setFrames threeFrames newScheduler)) []))
          \<lparr>currentIndex := 2\<rparr>,
        [(\<lparr>canvas = 12, delay = 100\<rparr>, 2)])"
proof -
  let ?s = "setCallback logCall (setFrames threeFrames newScheduler) :: (nat, (nat GifFrame \<times> int) list) FrameScheduler"
  let ?p = "fst (play 0 1 ?s [])"
  have fs: "frames ?s = threeFrames" "onFrame ?s = Some logCall"
    by (simp_all add: setCallback_def setFrames_def stop_def pause_def newScheduler_def)
  have fp: "frames ?p = threeFrames" "onFrame ?p = Some logCall"
    by (simp_all add: play_def tick_def frameAt_def setCallback_def setFrames_def stop_def
        pause_def newScheduler_def threeFrames_def)
  have ne: "threeFrames \<noteq> []" by (simp add: threeFrames_def)
  have a: "seek 1 ?s [] = (?s\<lparr>currentIndex := 1\<rparr>, [(\<lparr>canvas = 11, delay = 100\<rparr>, 1)])"
    using seek_clamps_and_calls [of ?s logCall 1 "[]"] fs ne
    by (simp add: clampIndex_def threeFrames_def logCall_def)
  have b: "seek 7 ?p [] = (?p\<lparr>currentIndex := 2\<rparr>, [(\<lparr>canvas = 12, delay = 100\<rparr>, 2)])"
    using seek_clamps_and_calls [of ?p logCall 7 "[]"] fp ne
    by (simp add: clampIndex_def threeFrames_def logCall_def)
  from a b show ?thesis by simp
qed

text \<open>
  C10. With an empty frame list, \<open>seek i\<close> leaves the current index at 0 and does not run
  the callback, whether or not one is registered: the read \<open>frames[0]\<close> is undefined and
  the guard fails.
\<close>

theorem seek_empty_no_callback:
  assumes "frames s = []"
  shows "seek i s w = (s\<lparr>currentIndex := 0\<rparr>, w)"
proof -
  have "max 0 (min i (int (length (frames s)) - 1)) = 0"
    using assms by simp
  moreover have "frameAt (frames s) 0 = None"
    using assms by (simp add: frameAt_def)
  ultimately show ?thesis
    by (simp add: seek_def Let_def split: option.splits)
qed

theorem seek_empty_no_callback_witness:
  "seek 5 (setCallback logCall newScheduler) [] = ((setCallback logCall newScheduler)\<lparr>currentIndex := 0\<rparr>, [])
   \<and> currentIndex (fst (seek (- 3) (setCallback logCall newScheduler) [])) = 0"
proof -
  let ?s = "setCallback logCall newScheduler :: (nat, (nat GifFrame \<times> int) list) FrameScheduler"
  have e: "frames ?s = []" by (simp add: setCallback_def newScheduler_def)
  show ?thesis
    using seek_empty_no_callback [OF e, of 5 "[]"] seek_empty_no_callback [OF e, of "- 3" "[]"]
    by simp
qed

section \<open>Operator fallback: pickBlendOp\<close>

text \<open>
  C8, as the code has it. \<open>pickBlendOp\<close> returns the requested operator when the support
  set holds it; otherwise the first supported one of overlay, screen, lighter, in this
  order; otherwise \<open>source-atop\<close>, whether supported or not. The operators color, hue,
  saturation and luminosity are returned only when they are the requested operator.
\<close>

theorem pickBlendOp_code_order:
  "pickBlendOp supported desired =
     (if desired \<in> supported then desired
      else case find (\<lambda>op. op \<in> supported) [''overlay'', ''screen'', ''lighter''] of
             Some op \<Rightarrow> op
           | None \<Rightarrow> ''source-atop'')"
  by (simp add: pickBlendOp_def)

theorem pickBlendOp_code_order_witness:
  "pickBlendOp {''color'', ''screen'', ''lighter''} ''color'' = ''color''
   \<and> pickBlendOp {''screen'', ''lighter''} ''color'' = ''screen''
   \<and> pickBlendOp {} ''color'' = ''source-atop''"
  using pickBlendOp_code_order [of "{''color'', ''screen'', ''lighter''}" "''color''"]
    pickBlendOp_code_order [of "{''screen'', ''lighter''}" "''color''"]
    pickBlendOp_code_order [of "{}" "''color''"]
  by simp

text \<open>
  C8, as the claim states it, fails: with color and overlay supported and hue requested,
  the order of the specification gives color, the code gives overlay.
\<close>

theorem pickBlendOp_spec_order_counterexample:
  "''hue'' \<notin> {''color'', ''overlay''}
   \<and> specPickBlendOp {''color'', ''overlay''} ''hue'' = ''color''
   \<and> pickBlendOp {''color'', ''overlay''} ''hue'' = ''overlay''
   \<and> pickBlendOp {''color'', ''overlay''} ''hue'' \<noteq> specPickBlendOp {''color'', ''overlay''} ''hue''"
  by (simp add: pickBlendOp_def specPickBlendOp_def specFallbackOrder_def)

section \<open>Rendering order: resolveActiveMutations\<close>

lemma sort_key_split_at:
  "sort_key f xs =
     sort_key f (filter (\<lambda>x. f x < c) xs) @ sort_key f (filter (\<lambda>x. \<not> f x < c) xs)"
    (is "_ = ?A @ ?B")
proof (rule properties_for_sort_key)
  show "mset (?A @ ?B) = mset xs" by simp
next
  show "sorted (map f (?A @ ?B))"
    by (auto simp: sorted_append)
next
  fix k assume "k \<in> set (?A @ ?B)"
  have A: "filter (\<lambda>x. f k = f x) ?A = filter (\<lambda>x. f k = f x) (filter (\<lambda>x. f x < c) xs)"
    using sort_key_stable [of f "f k" "filter (\<lambda>x. f x < c) xs"] by (simp add: eq_commute)
  have B: "filter (\<lambda>x. f k = f x) ?B = filter (\<lambda>x. f k = f x) (filter (\<lambda>x. \<not> f x < c) xs)"
    using sort_key_stable [of f "f k" "filter (\<lambda>x. \<not> f x < c) xs"] by (simp add: eq_commute)
  show "filter (\<lambda>x. f k = f x) (?A @ ?B) = filter (\<lambda>x. f k = f x) xs"
  proof (cases "f k < c")
    case True
    have "filter (\<lambda>x. f k = f x) (filter (\<lambda>x. \<not> f x < c) xs) = []"
      using True by (auto simp: filter_empty_conv)
    moreover have "filter (\<lambda>x. f k = f x) (filter (\<lambda>x. f x < c) xs) = filter (\<lambda>x. f k = f x) xs"
      using True by (auto intro: filter_cong)
    ultimately show ?thesis using A B by simp
  next
    case False
    have "filter (\<lambda>x. f k = f x) (filter (\<lambda>x. f x < c) xs) = []"
      using False by (auto simp: filter_empty_conv)
    moreover have "filter (\<lambda>x. f k = f x) (filter (\<lambda>x. \<not> f x < c) xs) = filter (\<lambda>x. f k = f x) xs"
      using False by (auto intro: filter_cong)
    ultimately show ?thesis using A B by simp
  qed
qed

lemma knownMutation_not_inherited: "knownMutation a \<Longrightarrow> a \<notin> set objectPrototypeNames"
  by (auto simp: knownMutation_def MUTATION_RENDER_ORDER_def objectPrototypeNames_def
      split: if_splits)

lemma renderPriority_known:
  "knownMutation a \<Longrightarrow> renderPriority a \<noteq> NaN \<and> numberOf (renderPriority a) < 50"
  by (auto simp: knownMutation_def renderPriority_def objectGet_def MUTATION_RENDER_ORDER_def
      split: if_splits)

lemma renderPriority_unknown:
  "\<not> knownMutation a \<Longrightarrow> a \<notin> set objectPrototypeNames \<Longrightarrow> renderPriority a = Num 50"
  by (auto simp: knownMutation_def renderPriority_def objectGet_def)

lemma renderPriority_inherited:
  "\<not> knownMutation a \<Longrightarrow> a \<in> set objectPrototypeNames \<Longrightarrow> renderPriority a = NaN"
  by (auto simp: knownMutation_def renderPriority_def objectGet_def)

lemma renderPriority_number:
  "renderPriority a \<noteq> NaN \<longleftrightarrow> a \<notin> set objectPrototypeNames"
proof (cases "knownMutation a")
  case True
  then show ?thesis
    using renderPriority_known [of a] knownMutation_not_inherited [of a] by simp
next
  case False
  show ?thesis
  proof (cases "a \<in> set objectPrototypeNames")
    case True
    then show ?thesis using renderPriority_inherited [OF False] by simp
  next
    case n: False
    then show ?thesis using renderPriority_unknown [OF False] by simp
  qed
qed

lemma knownMutation_iff_priority:
  "a \<notin> set objectPrototypeNames \<Longrightarrow> knownMutation a \<longleftrightarrow> numberOf (renderPriority a) < 50"
  using renderPriority_known [of a] renderPriority_unknown [of a] by (cases "knownMutation a") auto

lemma renderPriority_inj:
  "knownMutation a \<Longrightarrow> knownMutation b \<Longrightarrow>
     numberOf (renderPriority a) = numberOf (renderPriority b) \<Longrightarrow> a = b"
  by (auto simp: knownMutation_def renderPriority_def objectGet_def MUTATION_RENDER_ORDER_def
      split: if_splits)

lemma resolveActiveMutations_numbers:
  assumes "\<forall>a\<in>set xs. a \<notin> set objectPrototypeNames"
  shows "resolveActiveMutations engine xs = sort_key (\<lambda>a. numberOf (renderPriority a)) xs"
  using assms by (simp add: resolveActiveMutations_def list_all_iff renderPriority_number)

lemma resolveActiveMutations_shape:
  assumes "\<forall>a\<in>set xs. a \<notin> set objectPrototypeNames"
  shows "resolveActiveMutations engine xs =
           sort_key (\<lambda>a. numberOf (renderPriority a)) (filter knownMutation xs)
           @ filter (\<lambda>a. \<not> knownMutation a) xs"
proof -
  let ?f = "\<lambda>a. numberOf (renderPriority a)"
  have k: "filter (\<lambda>a. ?f a < 50) xs = filter knownMutation xs"
    using assms by (auto intro!: filter_cong simp: knownMutation_iff_priority)
  have u: "filter (\<lambda>a. \<not> ?f a < 50) xs = filter (\<lambda>a. \<not> knownMutation a) xs"
    using assms by (auto intro!: filter_cong simp: knownMutation_iff_priority)
  have "sorted (map ?f (filter (\<lambda>a. \<not> knownMutation a) xs))"
    using assms by (induction xs) (auto simp: renderPriority_unknown)
  then have "sort_key ?f (filter (\<lambda>a. \<not> knownMutation a) xs) = filter (\<lambda>a. \<not> knownMutation a) xs"
    by (rule sort_key_id_if_sorted)
  then show ?thesis
    using sort_key_split_at [of ?f xs 50]
    by (simp add: resolveActiveMutations_numbers [OF assms] k u)
qed

lemma fixedRenderOrder_priorities:
  "map renderPriority fixedRenderOrder
     = [Num 0, Num 1, Num 2, Num 3, Num 4, Num 5, Num 6, Num 7, Num 8, Num 9]"
  by (simp add: fixedRenderOrder_def renderPriority_def objectGet_def MUTATION_RENDER_ORDER_def)

lemma knownMutation_iff_fixed: "knownMutation a \<longleftrightarrow> a \<in> set fixedRenderOrder"
  by (auto simp: knownMutation_def fixedRenderOrder_def MUTATION_RENDER_ORDER_def)


text \<open>
  C3, as the code has it. Two selections that are permutations of each other, that list
  their unknown ids in the same relative order, and that contain no name of a member
  inherited from \<open>Object.prototype\<close>, resolve to the same sequence, whatever the
  implementation of the sort. The result is the known ids in ascending priority (Wet,
  Chilled, Frozen, Thunderstruck, Dawnlit, Ambershine, Dawncharged, Ambercharged, Gold,
  Rainbow have priorities 0 to 9) followed by the unknown ids, all of priority 50, in
  the order of the input.
\<close>

theorem resolveActiveMutations_permutation:
  assumes "mset xs = mset ys"
    and "filter (\<lambda>a. \<not> knownMutation a) xs = filter (\<lambda>a. \<not> knownMutation a) ys"
    and "\<forall>a\<in>set xs. a \<notin> set objectPrototypeNames"
  shows "resolveActiveMutations engine xs = resolveActiveMutations engine ys
         \<and> resolveActiveMutations engine xs =
             sort_key (\<lambda>a. numberOf (renderPriority a)) (filter knownMutation xs)
             @ filter (\<lambda>a. \<not> knownMutation a) xs
         \<and> sorted (map (\<lambda>a. numberOf (renderPriority a)) (resolveActiveMutations engine xs))
         \<and> map renderPriority fixedRenderOrder
             = [Num 0, Num 1, Num 2, Num 3, Num 4, Num 5, Num 6, Num 7, Num 8, Num 9]
         \<and> (\<forall>a. knownMutation a \<longleftrightarrow> a \<in> set fixedRenderOrder)"
proof -
  let ?f = "\<lambda>a. numberOf (renderPriority a)"
  have ys: "\<forall>a\<in>set ys. a \<notin> set objectPrototypeNames"
    using assms(1,3) by (metis set_mset_mset)
  have "mset (filter knownMutation xs) = mset (filter knownMutation ys)"
    using assms(1) by (metis mset_filter)
  moreover have "inj_on ?f (set (filter knownMutation xs))"
    by (auto intro!: inj_onI dest: renderPriority_inj)
  ultimately have "sort_key ?f (filter knownMutation xs) = sort_key ?f (filter knownMutation ys)"
    by (rule sort_key_eq_sort_key)
  then have "resolveActiveMutations engine xs = resolveActiveMutations engine ys"
    using assms(2) by (simp add: resolveActiveMutations_shape [OF assms(3)]
        resolveActiveMutations_shape [OF ys])
  moreover have "sorted (map ?f (resolveActiveMutations engine xs))"
    by (simp add: resolveActiveMutations_numbers [OF assms(3)])
  ultimately show ?thesis
    using resolveActiveMutations_shape [OF assms(3), of engine] fixedRenderOrder_priorities
      knownMutation_iff_fixed
    by simp
qed

theorem resolveActiveMutations_permutation_witness:
  "resolveActiveMutations rev [''Rainbow'', ''Foo'', ''Wet'', ''Gold'', ''Bar'']
     = resolveActiveMutations rev [''Foo'', ''Gold'', ''Bar'', ''Rainbow'', ''Wet'']
   \<and> resolveActiveMutations rev [''Rainbow'', ''Foo'', ''Wet'', ''Gold'', ''Bar'']
     = [''Wet'', ''Gold'', ''Rainbow'', ''Foo'', ''Bar'']"
proof -
  let ?xs = "[''Rainbow'', ''Foo'', ''Wet'', ''Gold'', ''Bar'']"
  let ?ys = "[''Foo'', ''Gold'', ''Bar'', ''Rainbow'', ''Wet'']"
  have m: "mset ?xs = mset ?ys" by simp
  have u: "filter (\<lambda>a. \<not> knownMutation a) ?xs = filter (\<lambda>a. \<not> knownMutation a) ?ys"
    by (simp add: knownMutation_def MUTATION_RENDER_ORDER_def)
  have n: "\<forall>a\<in>set ?xs. a \<notin> set objectPrototypeNames"
    by (simp add: objectPrototypeNames_def)
  have "resolveActiveMutations rev ?xs = [''Wet'', ''Gold'', ''Rainbow'', ''Foo'', ''Bar'']"
    by (simp add: resolveActiveMutations_def renderPriority_def objectGet_def
        MUTATION_RENDER_ORDER_def objectPrototypeNames_def)
  then show ?thesis
    using resolveActiveMutations_permutation [OF m u n, of rev] by simp
qed

text \<open>
  C3, as the claim states it, fails: two unknown ids keep the order of the input, so a
  permutation that swaps them changes the result.
\<close>

theorem resolveActiveMutations_permutation_counterexample:
  "mset [''Foo'', ''Bar''] = mset [''Bar'', ''Foo'']
   \<and> resolveActiveMutations rev [''Foo'', ''Bar''] = [''Foo'', ''Bar'']
   \<and> resolveActiveMutations rev [''Bar'', ''Foo''] = [''Bar'', ''Foo'']
   \<and> resolveActiveMutations rev [''Foo'', ''Bar''] \<noteq> resolveActiveMutations rev [''Bar'', ''Foo'']"
  by (simp add: resolveActiveMutations_def renderPriority_def objectGet_def
      MUTATION_RENDER_ORDER_def objectPrototypeNames_def)

text \<open>
  The name of an inherited member in the selection: its priority is NaN and the order of
  the result is the implementation's. An implementation that reads a NaN comparison as
  \<open>+0\<close> and sorts stably returns such a selection of two ids as it is, the known id
  after the name or before it.
\<close>

lemma resolveActiveMutations_inherited_name:
  "renderPriority ''toString'' = NaN
   \<and> resolveActiveMutations engine [''toString'', ''Wet''] = engine [''toString'', ''Wet'']
   \<and> resolveActiveMutations (\<lambda>selected. selected) [''toString'', ''Wet'']
       = [''toString'', ''Wet'']
   \<and> resolveActiveMutations (\<lambda>selected. selected) [''Wet'', ''toString'']
       = [''Wet'', ''toString'']"
  by (simp add: resolveActiveMutations_def renderPriority_def objectGet_def
      MUTATION_RENDER_ORDER_def objectPrototypeNames_def)

section \<open>Icon layout: computeIconLayout\<close>

text \<open>
  For a sprite of width \<open>w\<close>, height \<open>h\<close> and anchor \<open>(ax, ay)\<close> whose base name is in
  neither exception table and is not the name of a member inherited from
  \<open>Object.prototype\<close>: the target anchor X is \<open>ax\<close>; the target anchor Y is \<open>ay\<close> when
  \<open>h > 1.5 w\<close> and 0.4 otherwise; the offset is \<open>(targetX - ax) w\<close> and
  \<open>(targetY - ay) h\<close>; the icon scale is \<open>0.5 min(1.5, min(w, h) / 256)\<close>, doubled
  for a tall sprite.
\<close>

lemma computeIconLayout_plain_name:
  assumes "MUT_ICON_X_EXCEPT (baseNameOf key) = None"
    and "MUT_ICON_Y_EXCEPT (baseNameOf key) = None"
    and "baseNameOf key \<notin> set objectPrototypeNames"
  shows "targetX (Num ax) key = Num ax
         \<and> targetY w h (Num ay) key = Num (if h > 1.5 * w then ay else 0.4)
         \<and> offset (computeIconLayout w h (Num ax) (Num ay) key tall)
             = (Num ((ax - ax) * w), Num (((if h > 1.5 * w then ay else 0.4) - ay) * h))
         \<and> iconScale (computeIconLayout w h (Num ax) (Num ay) key tall)
             = (if tall then 2 * (0.5 * min 1.5 (min w h / 256))
                else 0.5 * min 1.5 (min w h / 256))
         \<and> width (computeIconLayout w h (Num ax) (Num ay) key tall) = w
         \<and> height (computeIconLayout w h (Num ax) (Num ay) key tall) = h
         \<and> anchorX (computeIconLayout w h (Num ax) (Num ay) key tall) = Num ax
         \<and> anchorY (computeIconLayout w h (Num ax) (Num ay) key tall) = Num ay"
  using assms
  by (simp add: targetX_def targetY_def objectGet_def computeIconLayout_def Let_def
      TILE_SIZE_WORLD_def BASE_ICON_SCALE_def TALL_PLANT_MUTATION_ICON_SCALE_BOOST_def
      mult.commute)

lemma computeIconLayout_plain_name_examples:
  "targetY 100 300 (Num 0.9) ''sprite/tall-plant/Bamboo'' = Num 0.9
   \<and> offset (computeIconLayout 100 300 (Num 0.5) (Num 0.9) ''sprite/tall-plant/Bamboo'' False)
       = (Num 0, Num 0)
   \<and> iconScale (computeIconLayout 100 300 (Num 0.5) (Num 0.9) ''sprite/tall-plant/Bamboo'' False)
       = 25 / 128
   \<and> targetY 256 256 (Num 0.5) ''sprite/plant/Tomato'' = Num 0.4
   \<and> offset (computeIconLayout 256 256 (Num 0.5) (Num 0.5) ''sprite/plant/Tomato'' True)
       = (Num 0, Num (- 25.6))
   \<and> iconScale (computeIconLayout 256 256 (Num 0.5) (Num 0.5) ''sprite/plant/Tomato'' True) = 1"
proof -
  have b: "baseNameOf ''sprite/tall-plant/Bamboo'' = ''Bamboo''"
    "baseNameOf ''sprite/plant/Tomato'' = ''Tomato''"
    by (simp_all add: baseNameOf_def)
  have x: "MUT_ICON_X_EXCEPT (baseNameOf ''sprite/tall-plant/Bamboo'') = None"
    "MUT_ICON_X_EXCEPT (baseNameOf ''sprite/plant/Tomato'') = None"
    by (simp_all add: b MUT_ICON_X_EXCEPT_def)
  have y: "MUT_ICON_Y_EXCEPT (baseNameOf ''sprite/tall-plant/Bamboo'') = None"
    "MUT_ICON_Y_EXCEPT (baseNameOf ''sprite/plant/Tomato'') = None"
    by (simp_all add: b MUT_ICON_Y_EXCEPT_def)
  have n: "baseNameOf ''sprite/tall-plant/Bamboo'' \<notin> set objectPrototypeNames"
    "baseNameOf ''sprite/plant/Tomato'' \<notin> set objectPrototypeNames"
    by (simp_all add: b objectPrototypeNames_def)
  show ?thesis
    using computeIconLayout_plain_name [OF x(1) y(1) n(1), of "0.5" 100 300 "0.9" False]
      computeIconLayout_plain_name [OF x(2) y(2) n(2), of "0.5" 256 256 "0.5" True]
    by simp
qed


section \<open>Render cache: capacity and eviction\<close>

lemma mapSet_keys: "fst ` set (mapSet k v es) = insert k (fst ` set es)"
  by (induction es) force+

lemma mapSet_distinct: "distinct (map fst es) \<Longrightarrow> distinct (map fst (mapSet k v es))"
  by (induction es) (auto simp: mapSet_keys)

lemma mapSet_length:
  "length (mapSet k v es) = (if k \<in> fst ` set es then length es else Suc (length es))"
  by (induction es) force+

lemma mapSet_new: "k \<notin> fst ` set es \<Longrightarrow> mapSet k v es = es @ [(k, v)]"
  by (induction es) auto

lemma map_of_mapSet: "map_of (mapSet k v es) = (map_of es)(k \<mapsto> v)"
  by (induction es) (auto simp: fun_eq_iff)

lemma mapDelete_split:
  "k \<notin> fst ` set pre \<Longrightarrow> mapDelete k (pre @ (k, e) # post) = pre @ post"
  by (induction pre) auto

lemma scanOldest_Some:
  "(scanOldest es (Some m) k0 = k0 \<and> (\<forall>x \<in> set es. m \<le> lastUsed (snd x)))
   \<or> (\<exists>pre k e post. lruSplit es pre k e post \<and> lastUsed e < m \<and> scanOldest es (Some m) k0 = k)"
proof (induction es arbitrary: m k0)
  case Nil
  then show ?case by simp
next
  case (Cons a es)
  obtain k1 v1 where a: "a = (k1, v1)" by (cases a)
  show ?case
  proof (cases "lastUsed v1 < m")
    case True
    from Cons.IH [of "lastUsed v1" k1] show ?thesis
    proof
      assume h: "scanOldest es (Some (lastUsed v1)) k1 = k1 \<and> (\<forall>x\<in>set es. lastUsed v1 \<le> lastUsed (snd x))"
      then have "lruSplit (a # es) [] k1 v1 es" by (simp add: lruSplit_def a)
      then show ?thesis using True h a by auto
    next
      assume "\<exists>pre k e post. lruSplit es pre k e post \<and> lastUsed e < lastUsed v1 \<and> scanOldest es (Some (lastUsed v1)) k1 = k"
      then obtain pre k e post where h: "lruSplit es pre k e post" "lastUsed e < lastUsed v1"
        "scanOldest es (Some (lastUsed v1)) k1 = k" by blast
      then have "lruSplit (a # es) (a # pre) k e post" by (auto simp: lruSplit_def a)
      moreover have "lastUsed e < m" using h(2) True by simp
      ultimately show ?thesis using True h(3) a by auto
    qed
  next
    case False
    from Cons.IH [of m k0] show ?thesis
    proof
      assume h: "scanOldest es (Some m) k0 = k0 \<and> (\<forall>x\<in>set es. m \<le> lastUsed (snd x))"
      then show ?thesis using False a by auto
    next
      assume "\<exists>pre k e post. lruSplit es pre k e post \<and> lastUsed e < m \<and> scanOldest es (Some m) k0 = k"
      then obtain pre k e post where h: "lruSplit es pre k e post" "lastUsed e < m"
        "scanOldest es (Some m) k0 = k" by blast
      then have "lruSplit (a # es) (a # pre) k e post" using False by (auto simp: lruSplit_def a)
      then show ?thesis using False h a by auto
    qed
  qed
qed

lemma scanOldest_None:
  assumes "es \<noteq> []"
  shows "\<exists>pre k e post. lruSplit es pre k e post \<and> scanOldest es None k0 = k"
proof -
  obtain k1 v1 es' where es: "es = (k1, v1) # es'" using assms by (cases es) auto
  from scanOldest_Some [of es' "lastUsed v1" k1] show ?thesis
  proof
    assume h: "scanOldest es' (Some (lastUsed v1)) k1 = k1 \<and> (\<forall>x\<in>set es'. lastUsed v1 \<le> lastUsed (snd x))"
    then have "lruSplit es [] k1 v1 es'" by (simp add: lruSplit_def es)
    then show ?thesis using h es by auto
  next
    assume "\<exists>pre k e post. lruSplit es' pre k e post \<and> lastUsed e < lastUsed v1 \<and> scanOldest es' (Some (lastUsed v1)) k1 = k"
    then obtain pre k e post where h: "lruSplit es' pre k e post" "lastUsed e < lastUsed v1"
      "scanOldest es' (Some (lastUsed v1)) k1 = k" by blast
    then have "lruSplit es ((k1, v1) # pre) k e post" by (auto simp: lruSplit_def es)
    then show ?thesis using h(3) es by auto
  qed
qed

lemma evictLru_split:
  assumes "distinct (map fst (entries c))" "'''' \<notin> fst ` set (entries c)" "entries c \<noteq> []"
  shows "\<exists>pre k e post. lruSplit (entries c) pre k e post
           \<and> evictLru c = c\<lparr>entries := pre @ post, released := released c @ [ecanvas e]\<rparr>"
proof -
  from scanOldest_None [OF assms(3), of "''''"] obtain pre k e post
    where h: "lruSplit (entries c) pre k e post" "scanOldest (entries c) None '''' = k" by blast
  then have es: "entries c = pre @ (k, e) # post" by (simp add: lruSplit_def)
  have kne: "k \<noteq> ''''" using assms(2) es by auto
  have kpre: "k \<notin> fst ` set pre" using assms(1) es by auto
  have "(k, e) \<in> set (entries c)" using es by simp
  then have mo: "map_of (entries c) k = Some e" using assms(1) by (rule map_of_is_SomeI [rotated])
  have "evictLru c = c\<lparr>entries := pre @ post, released := released c @ [ecanvas e]\<rparr>"
    using h(2) kne mo mapDelete_split [OF kpre, of e post] es
    by (simp add: evictLru_def Let_def)
  then show ?thesis using h(1) by blast
qed

lemma set_at_capacity:
  assumes "cacheInv c" "length (entries c) = MAX_ENTRIES"
  shows "\<exists>pre k e post. lruSplit (entries c) pre k e post
           \<and> RenderCache_set now key cv c =
               c\<lparr>entries := mapSet key \<lparr>ecanvas = cv, lastUsed = now\<rparr> (pre @ post),
                 released := released c @ [ecanvas e]\<rparr>"
proof -
  have ne: "entries c \<noteq> []" using assms(2) by (auto simp: MAX_ENTRIES_def)
  from evictLru_split [OF _ _ ne] assms(1) obtain pre k e post
    where h: "lruSplit (entries c) pre k e post"
      "evictLru c = c\<lparr>entries := pre @ post, released := released c @ [ecanvas e]\<rparr>"
    unfolding cacheInv_def by blast
  have "RenderCache_set now key cv c =
               c\<lparr>entries := mapSet key \<lparr>ecanvas = cv, lastUsed = now\<rparr> (pre @ post),
                 released := released c @ [ecanvas e]\<rparr>"
    using assms(2) h(2) by (simp add: RenderCache_set_def Let_def)
  then show ?thesis using h(1) by blast
qed

lemma set_inv:
  assumes "cacheInv c" "key \<noteq> ''''"
  shows "cacheInv (RenderCache_set now key cv c)"
proof (cases "length (entries c) = MAX_ENTRIES")
  case True
  from set_at_capacity [OF assms(1) True, of now key cv] obtain pre k e post
    where h: "lruSplit (entries c) pre k e post"
      "RenderCache_set now key cv c =
               c\<lparr>entries := mapSet key \<lparr>ecanvas = cv, lastUsed = now\<rparr> (pre @ post),
                 released := released c @ [ecanvas e]\<rparr>" by blast
  have es: "entries c = pre @ (k, e) # post" using h(1) by (simp add: lruSplit_def)
  have d: "distinct (map fst (pre @ post))" using assms(1) es by (auto simp: cacheInv_def)
  have l: "Suc (length (pre @ post)) = MAX_ENTRIES" using True es by simp
  have n: "'''' \<notin> fst ` set (pre @ post)" using assms(1) es by (auto simp: cacheInv_def)
  show ?thesis
    unfolding h(2) cacheInv_def using mapSet_distinct [OF d] l n assms(2)
    by (auto simp: mapSet_keys mapSet_length simp del: set_append map_append)
next
  case False
  then have lt: "length (entries c) < MAX_ENTRIES" using assms(1) by (simp add: cacheInv_def)
  then have "RenderCache_set now key cv c = c\<lparr>entries := mapSet key \<lparr>ecanvas = cv, lastUsed = now\<rparr> (entries c)\<rparr>"
    by (simp add: RenderCache_set_def)
  then show ?thesis
    using assms lt by (auto simp: cacheInv_def mapSet_distinct mapSet_keys mapSet_length)
qed

lemma get_inv: "cacheInv c \<Longrightarrow> cacheInv (fst (RenderCache_get now key c))"
  by (auto simp: RenderCache_get_def cacheInv_def mapSet_distinct mapSet_keys mapSet_length
      split: option.splits dest: map_of_SomeD) (metis fst_conv image_eqI map_of_SomeD)+

lemma clear_inv: "cacheInv (RenderCache_clear c)"
  by (simp add: RenderCache_clear_def cacheInv_def)

lemma apply_inv: "cacheInv c \<Longrightarrow> \<not> setsEmptyKey (snd op) \<Longrightarrow> cacheInv (applyCacheOp op c)"
  by (cases op; cases "snd op") (auto simp: set_inv get_inv clear_inv)

lemma run_inv: "cacheInv c \<Longrightarrow> \<forall>op \<in> set ops. \<not> setsEmptyKey (snd op) \<Longrightarrow> cacheInv (runCacheOps ops c)"
  by (induction ops arbitrary: c) (auto simp: apply_inv)

lemma new_inv: "cacheInv newRenderCache"
  by (simp add: cacheInv_def newRenderCache_def)


lemma lruSplit_least: "lruSplit es pre k e post \<Longrightarrow> x \<in> set es \<Longrightarrow> lastUsed e \<le> lastUsed (snd x)"
  by (auto simp: lruSplit_def)

lemma mapSet_other: "(k1, e1) \<in> set es \<Longrightarrow> k1 \<noteq> k \<Longrightarrow> (k1, e1) \<in> set (mapSet k v es)"
  by (induction es) auto

lemma get_hit:
  "map_of (entries c) k0 = Some e0 \<Longrightarrow>
     RenderCache_get t k0 c =
       (c\<lparr>entries := mapSet k0 (e0\<lparr>lastUsed := t\<rparr>) (entries c)\<rparr>, Some (ecanvas e0))"
  by (simp add: RenderCache_get_def)

lemma touched_survives:
  assumes inv: "cacheInv c" and full: "length (entries c) = MAX_ENTRIES"
    and hit: "map_of (entries c) k0 = Some e0"
    and older: "(k1, e1) \<in> set (entries c)" "k1 \<noteq> k0" "lastUsed e1 < t"
  shows "k0 \<in> fst ` set (entries (RenderCache_set now key cv (fst (RenderCache_get t k0 c))))"
proof -
  let ?c = "fst (RenderCache_get t k0 c)"
  have ec: "entries ?c = mapSet k0 (e0\<lparr>lastUsed := t\<rparr>) (entries c)"
    using hit by (simp add: get_hit)
  have inv': "cacheInv ?c" using inv by (rule get_inv)
  have k0in: "k0 \<in> fst ` set (entries c)"
    using hit by (metis fst_conv image_eqI map_of_SomeD)
  have full': "length (entries ?c) = MAX_ENTRIES"
    using full k0in by (simp add: ec mapSet_length)
  from set_at_capacity [OF inv' full', of now key cv] obtain pre k e post
    where h: "lruSplit (entries ?c) pre k e post"
      "RenderCache_set now key cv ?c =
         ?c\<lparr>entries := mapSet key \<lparr>ecanvas = cv, lastUsed = now\<rparr> (pre @ post),
            released := released ?c @ [ecanvas e]\<rparr>" by blast
  have es: "entries ?c = pre @ (k, e) # post" using h(1) by (simp add: lruSplit_def)
  have "(k1, e1) \<in> set (entries ?c)" using older(1,2) by (simp add: ec mapSet_other)
  then have le: "lastUsed e \<le> lastUsed e1" using lruSplit_least [OF h(1)] by fastforce
  have d: "distinct (map fst (entries ?c))" using inv' by (simp add: cacheInv_def)
  have "map_of (entries ?c) k0 = Some (e0\<lparr>lastUsed := t\<rparr>)"
    by (simp add: ec map_of_mapSet)
  moreover have "map_of (entries ?c) k = Some e"
    using d es by (intro map_of_is_SomeI) simp_all
  ultimately have "k \<noteq> k0" using le older(3) by auto
  moreover have "k0 \<in> fst ` set (entries ?c)" by (simp add: ec mapSet_keys)
  ultimately have "k0 \<in> fst ` set (pre @ post)" unfolding es by auto
  then show ?thesis unfolding h(2) by (simp add: mapSet_keys del: set_append)
qed

lemma runCacheOps_append: "runCacheOps (a @ b) c = runCacheOps b (runCacheOps a c)"
  by (induction a arbitrary: c) auto

lemma fingerprint_inj: "fingerprint i = fingerprint j \<longleftrightarrow> i = j"
  by (auto simp: fingerprint_def replicate_eq_replicate)

lemma fingerprint_nonempty: "fingerprint i \<noteq> ''''"
  by (simp add: fingerprint_def)

lemma filled_keys: "fst ` set (filled t n) = fingerprint ` {0..<n}"
  by (force simp: filled_def)

lemma fillOps_state:
  "n \<le> MAX_ENTRIES \<Longrightarrow>
     runCacheOps (fillOps t n) newRenderCache = \<lparr>entries = filled t n, released = []\<rparr>"
proof (induction n)
  case 0
  then show ?case by (simp add: fillOps_def filled_def newRenderCache_def)
next
  case (Suc n)
  have f: "fillOps t (Suc n) = fillOps t n @ [(t, Set (fingerprint n) n)]"
    by (simp add: fillOps_def)
  have new: "fingerprint n \<notin> fst ` set (filled t n)"
    by (auto simp: filled_keys fingerprint_inj)
  have len: "length (filled t n) = n" by (simp add: filled_def)
  have "filled t (Suc n) = filled t n @ [(fingerprint n, \<lparr>ecanvas = n, lastUsed = t\<rparr>)]"
    by (simp add: filled_def)
  then show ?case
    using Suc new len by (simp add: f runCacheOps_append RenderCache_set_def mapSet_new)
qed

lemma mapSet_same: "map_of es k = Some v \<Longrightarrow> mapSet k v es = es"
  by (induction es) (auto split: if_splits)

lemma scanOldest_ties:
  "\<forall>x \<in> set es. lastUsed (snd x) = t \<Longrightarrow> scanOldest es (Some t) k0 = k0"
  by (induction es) auto

lemma filled_Suc: "filled t (Suc n) = (fingerprint 0, \<lparr>ecanvas = 0, lastUsed = t\<rparr>) # map (\<lambda>i. (fingerprint i, \<lparr>ecanvas = i, lastUsed = t\<rparr>)) [1..<Suc n]"
proof -
  have "[0..<Suc n] = 0 # [1..<Suc n]" by (simp add: upt_conv_Cons del: upt_Suc)
  then show ?thesis by (simp add: filled_def del: upt_Suc)
qed

text \<open>
  C4, as the code has it. In every run of get, set and clear from the empty cache in which
  no set uses the empty string as key, the cache never holds more than \<open>MAX_ENTRIES\<close>
  (300) entries, and its keys are distinct. In such a state \<open>c\<close>: a set at capacity
  first removes exactly one entry, the first in insertion order among those with the
  least last-used time, releases its canvas, and then stores the new entry; a get that
  hits writes the clock reading into the entry and returns its canvas; and an entry
  touched by a get at time \<open>t\<close> just before a set at capacity is still cached after
  the set, provided some other entry was last used strictly before \<open>t\<close>.
\<close>

theorem renderCache_bounded_lru:
  assumes "\<forall>op \<in> set ops. \<not> setsEmptyKey (snd op)"
    and "c = runCacheOps ops newRenderCache"
  shows "length (entries c) \<le> MAX_ENTRIES
         \<and> distinct (map fst (entries c))
         \<and> (length (entries c) = MAX_ENTRIES \<longrightarrow>
              (\<exists>pre k e post. lruSplit (entries c) pre k e post
                 \<and> RenderCache_set now key cv c =
                     c\<lparr>entries := mapSet key \<lparr>ecanvas = cv, lastUsed = now\<rparr> (pre @ post),
                       released := released c @ [ecanvas e]\<rparr>))
         \<and> (map_of (entries c) k0 = Some e0 \<longrightarrow>
              RenderCache_get t k0 c =
                (c\<lparr>entries := mapSet k0 (e0\<lparr>lastUsed := t\<rparr>) (entries c)\<rparr>, Some (ecanvas e0)))
         \<and> (length (entries c) = MAX_ENTRIES \<and> map_of (entries c) k0 = Some e0
              \<and> (k1, e1) \<in> set (entries c) \<and> k1 \<noteq> k0 \<and> lastUsed e1 < t \<longrightarrow>
              k0 \<in> fst ` set (entries (RenderCache_set now key cv (fst (RenderCache_get t k0 c)))))"
proof -
  have inv: "cacheInv c"
    unfolding assms(2) using new_inv assms(1) by (rule run_inv)
  then have "length (entries c) \<le> MAX_ENTRIES" "distinct (map fst (entries c))"
    by (simp_all add: cacheInv_def)
  moreover have "length (entries c) = MAX_ENTRIES \<longrightarrow>
              (\<exists>pre k e post. lruSplit (entries c) pre k e post
                 \<and> RenderCache_set now key cv c =
                     c\<lparr>entries := mapSet key \<lparr>ecanvas = cv, lastUsed = now\<rparr> (pre @ post),
                       released := released c @ [ecanvas e]\<rparr>)"
    using set_at_capacity [OF inv] by blast
  moreover have "map_of (entries c) k0 = Some e0 \<longrightarrow>
              RenderCache_get t k0 c =
                (c\<lparr>entries := mapSet k0 (e0\<lparr>lastUsed := t\<rparr>) (entries c)\<rparr>, Some (ecanvas e0))"
    using get_hit by blast
  moreover have "length (entries c) = MAX_ENTRIES \<and> map_of (entries c) k0 = Some e0
              \<and> (k1, e1) \<in> set (entries c) \<and> k1 \<noteq> k0 \<and> lastUsed e1 < t \<longrightarrow>
              k0 \<in> fst ` set (entries (RenderCache_set now key cv (fst (RenderCache_get t k0 c))))"
    using touched_survives [OF inv] by blast
  ultimately show ?thesis by blast
qed

theorem renderCache_bounded_lru_witness:
  "length (entries (runCacheOps touchThenInsertLater newRenderCache)) \<le> MAX_ENTRIES
   \<and> fingerprint 0 \<in> fst ` set (entries (runCacheOps touchThenInsertLater newRenderCache))"
proof -
  let ?c = "runCacheOps (fillOps 1000 MAX_ENTRIES) newRenderCache"
  have ok1: "\<forall>op \<in> set (fillOps 1000 MAX_ENTRIES). \<not> setsEmptyKey (snd op)"
    by (auto simp: fillOps_def fingerprint_nonempty)
  have ok2: "\<forall>op \<in> set touchThenInsertLater. \<not> setsEmptyKey (snd op)"
    using ok1 by (auto simp: touchThenInsertLater_def fingerprint_nonempty)
  have st: "entries ?c = filled 1000 MAX_ENTRIES"
    by (simp add: fillOps_state)
  have len: "length (entries ?c) = MAX_ENTRIES" by (simp add: st filled_def)
  have "filled 1000 MAX_ENTRIES =
          (fingerprint 0, \<lparr>ecanvas = 0, lastUsed = 1000\<rparr>) #
          map (\<lambda>i. (fingerprint i, \<lparr>ecanvas = i, lastUsed = 1000\<rparr>)) [1..<MAX_ENTRIES]"
    using filled_Suc [of 1000 299] by (simp add: MAX_ENTRIES_def)
  then have hit: "map_of (entries ?c) (fingerprint 0) = Some \<lparr>ecanvas = 0, lastUsed = 1000\<rparr>"
    unfolding st by simp
  have other: "(fingerprint 1, \<lparr>ecanvas = 1, lastUsed = 1000\<rparr>) \<in> set (entries ?c)"
    unfolding st filled_def by (auto simp: image_iff MAX_ENTRIES_def)
  have ne: "fingerprint 1 \<noteq> fingerprint 0" by (simp add: fingerprint_inj)
  have lt: "lastUsed \<lparr>ecanvas = 1::nat, lastUsed = 1000\<rparr> < 1001" by simp
  have a: "length (entries (runCacheOps touchThenInsertLater newRenderCache)) \<le> MAX_ENTRIES"
    using renderCache_bounded_lru [OF ok2 refl] by blast
  have "fingerprint 0 \<in> fst ` set (entries (RenderCache_set 1002 (fingerprint MAX_ENTRIES) MAX_ENTRIES
          (fst (RenderCache_get 1001 (fingerprint 0) ?c))))"
    using renderCache_bounded_lru [where ?k0.0 = "fingerprint 0"
        and ?e0.0 = "\<lparr>ecanvas = 0, lastUsed = 1000\<rparr>" and ?k1.0 = "fingerprint 1"
        and ?e1.0 = "\<lparr>ecanvas = 1, lastUsed = 1000\<rparr>" and t = 1001 and now = 1002
        and key = "fingerprint MAX_ENTRIES" and cv = MAX_ENTRIES, OF ok1 refl]
      len hit other ne lt by blast
  then have b: "fingerprint 0 \<in> fst ` set (entries (runCacheOps touchThenInsertLater newRenderCache))"
    by (simp add: touchThenInsertLater_def runCacheOps_append)
  from a b show ?thesis by simp
qed

text \<open>
  C4, as the claim states it, fails: when the clock does not advance between the uses,
  all entries carry the same time, and the scan evicts the first one in insertion order,
  even though a get touched it immediately before the insert.
\<close>

theorem renderCache_touched_evicted_counterexample:
  "length (entries (runCacheOps (fillOps 1000 MAX_ENTRIES) newRenderCache)) = MAX_ENTRIES
   \<and> map_of (entries (runCacheOps (fillOps 1000 MAX_ENTRIES) newRenderCache)) (fingerprint 0)
       = Some \<lparr>ecanvas = 0, lastUsed = 1000\<rparr>
   \<and> map_of (entries (runCacheOps touchThenInsertSameTick newRenderCache)) (fingerprint 0) = None"
proof -
  let ?c = "\<lparr>entries = filled 1000 MAX_ENTRIES, released = []\<rparr> :: nat RenderCache"
  let ?rest = "map (\<lambda>i. (fingerprint i, \<lparr>ecanvas = i, lastUsed = 1000\<rparr>)) [1..<MAX_ENTRIES]"
  have st: "runCacheOps (fillOps 1000 MAX_ENTRIES) newRenderCache = ?c"
    by (simp add: fillOps_state)
  have fl: "filled 1000 MAX_ENTRIES = (fingerprint 0, \<lparr>ecanvas = 0, lastUsed = 1000\<rparr>) # ?rest"
    using filled_Suc [of 1000 299] by (simp add: MAX_ENTRIES_def)
  have len: "length (filled 1000 MAX_ENTRIES) = MAX_ENTRIES" by (simp add: filled_def)
  have hit: "map_of (filled 1000 MAX_ENTRIES) (fingerprint 0) = Some \<lparr>ecanvas = 0, lastUsed = 1000\<rparr>"
    by (simp add: fl)
  have g: "fst (RenderCache_get 1000 (fingerprint 0) ?c) = ?c"
    using hit by (simp add: RenderCache_get_def mapSet_same)
  have sc: "scanOldest (filled 1000 MAX_ENTRIES) None '''' = fingerprint 0"
    by (simp add: fl scanOldest_ties)
  have ev: "evictLru ?c = \<lparr>entries = ?rest, released = [0]\<rparr>"
    using sc hit by (simp add: evictLru_def fingerprint_nonempty) (simp add: fl)
  have notin: "fingerprint 0 \<notin> fst ` set ?rest"
    by (auto simp: fingerprint_inj)
  have "map_of (entries (RenderCache_set 1000 (fingerprint MAX_ENTRIES) MAX_ENTRIES ?c)) (fingerprint 0) = None"
    using len ev notin
    by (simp add: RenderCache_set_def map_of_mapSet fingerprint_inj map_of_eq_None_iff MAX_ENTRIES_def)
  then show ?thesis
    using st len hit g by (simp add: touchThenInsertSameTick_def runCacheOps_append)
qed


text \<open>
  The empty string as key. \<open>evictLru\<close> tells "no entry found" from "entry found" by
  the truth value of \<open>oldestKey\<close>, and the empty string is falsy: when the oldest entry
  has the empty key, nothing is evicted and the cache grows past \<open>MAX_ENTRIES\<close>. The
  keys that \<open>renderSlot\<close> builds are never empty.
\<close>

lemma scanOldest_keeps:
  "\<forall>x \<in> set es. t \<le> lastUsed (snd x) \<Longrightarrow> scanOldest es (Some t) k0 = k0"
  by (induction es) auto

lemma fillOps_from:
  assumes "length (entries c) + n \<le> MAX_ENTRIES"
    and "fst ` set (entries c) \<inter> fingerprint ` {0..<n} = {}"
  shows "runCacheOps (fillOps t n) c = c\<lparr>entries := entries c @ filled t n\<rparr>"
  using assms
proof (induction n)
  case 0
  then show ?case by (simp add: fillOps_def filled_def)
next
  case (Suc n)
  have f: "fillOps t (Suc n) = fillOps t n @ [(t, Set (fingerprint n) n)]"
    by (simp add: fillOps_def)
  have g: "filled t (Suc n) = filled t n @ [(fingerprint n, \<lparr>ecanvas = n, lastUsed = t\<rparr>)]"
    by (simp add: filled_def)
  have ih: "runCacheOps (fillOps t n) c = c\<lparr>entries := entries c @ filled t n\<rparr>"
    using Suc by (auto simp del: upt_Suc simp: atLeast0_lessThan_Suc)
  have "fingerprint n \<notin> fst ` set (entries c)"
    using Suc.prems(2) by (force simp: disjoint_iff)
  moreover have "fingerprint n \<notin> fst ` set (filled t n)"
    by (auto simp: filled_keys fingerprint_inj)
  ultimately have new: "fingerprint n \<notin> fst ` set (entries c @ filled t n)"
    by auto
  have len: "length (entries c @ filled t n) < MAX_ENTRIES"
    using Suc.prems(1) by (simp add: filled_def)
  show ?case
    using new len
    by (simp add: f g ih runCacheOps_append RenderCache_set_def mapSet_new del: set_append)
qed

lemma evictLru_skips_empty_key:
  "length (entries (runCacheOps emptyKeyOldest newRenderCache)) = Suc MAX_ENTRIES"
proof -
  let ?e = "\<lparr>ecanvas = 0::nat, lastUsed = 0\<rparr>"
  let ?start = "\<lparr>entries = [('''', ?e)], released = []\<rparr> :: nat RenderCache"
  let ?n = "MAX_ENTRIES - 1"
  let ?full = "?start\<lparr>entries := entries ?start @ filled 1 ?n\<rparr>"
  have first: "RenderCache_set 0 '''' 0 newRenderCache = ?start"
    by (simp add: RenderCache_set_def newRenderCache_def MAX_ENTRIES_def)
  have suc: "Suc ?n = MAX_ENTRIES"
    by (simp add: MAX_ENTRIES_def)
  have "fillOps 1 (Suc ?n) = fillOps 1 ?n @ [(1, Set (fingerprint ?n) ?n)]"
    by (simp add: fillOps_def)
  then have split: "fillOps 1 MAX_ENTRIES = fillOps 1 ?n @ [(1, Set (fingerprint ?n) ?n)]"
    unfolding suc .
  have "fst ` set (entries ?start) \<inter> fingerprint ` {0..<?n} = {}"
    by (auto simp: fingerprint_def)
  moreover have "length (entries ?start) + ?n \<le> MAX_ENTRIES"
    by (simp add: MAX_ENTRIES_def)
  ultimately have mid: "runCacheOps (fillOps 1 ?n) ?start = ?full"
    by (rule fillOps_from [rotated])
  have len: "length (entries ?full) = MAX_ENTRIES"
    by (simp add: filled_def MAX_ENTRIES_def)
  have "\<forall>x \<in> set (filled 1 ?n). (0::int) \<le> lastUsed (snd x)"
    by (auto simp: filled_def)
  then have "scanOldest (entries ?full) None '''' = ''''"
    by (simp add: scanOldest_keeps)
  then have ev: "evictLru ?full = ?full"
    by (simp add: evictLru_def)
  have new: "fingerprint ?n \<notin> fst ` set (entries ?full)"
    using fingerprint_nonempty [of ?n] by (auto simp: filled_keys fingerprint_inj)
  have "length (entries (RenderCache_set 1 (fingerprint ?n) ?n ?full)) = Suc MAX_ENTRIES"
    unfolding RenderCache_set_def Let_def using len ev new
    by (auto simp: mapSet_length simp del: set_append)
  moreover have "runCacheOps emptyKeyOldest newRenderCache
                   = RenderCache_set 1 (fingerprint ?n) ?n ?full"
    unfolding emptyKeyOldest_def split
    by (simp only: runCacheOps.simps runCacheOps_append applyCacheOp.simps first mid)
  ultimately show ?thesis by simp
qed

section \<open>Compositing: every step of the mutation pipeline keeps alpha\<close>

lemma length_fillRectAll: "length (pixels (fillRectAll P operator g c dst)) = length (pixels dst)"
  by (simp add: fillRectAll_def)

lemma nth_fillRectAll:
  "i < length (pixels dst) \<Longrightarrow>
     pixels (fillRectAll P operator g c dst) ! i = compositePixel P operator (paint g c) (pixels dst ! i)"
  by (simp add: fillRectAll_def)

lemma length_drawImage:
  "length (pixels (drawImage P operator g src dst)) = min (length (pixels src)) (length (pixels dst))"
  by (simp add: drawImage_def)

lemma nth_drawImage:
  "i < length (pixels src) \<Longrightarrow> i < length (pixels dst) \<Longrightarrow>
     pixels (drawImage P operator g src dst) ! i
       = compositePixel P operator (fade g (pixels src ! i)) (pixels dst ! i)"
  by (simp add: drawImage_def)

lemma source_atop_alpha: "pa (compositePixel P ''source-atop'' s d) = pa d"
  by (simp add: compositePixel_def porterDuff_def algebra_simps)

lemma destination_in_alpha: "pa (compositePixel P ''destination-in'' s d) = pa d * pa s"
  by (simp add: compositePixel_def porterDuff_def)

lemma source_over_clear: "compositePixel P ''source-over'' (fade 1 s) clearPixel = s"
  by (simp add: compositePixel_def porterDuff_def fade_def clearPixel_def)

lemma length_blank: "length (pixels (blankCanvas w h)) = w * h"
  by (simp add: blankCanvas_def)

lemma length_snapshotOf: "wellFormed cv \<Longrightarrow> length (pixels (snapshotOf P cv)) = length (pixels cv)"
  by (simp add: snapshotOf_def length_drawImage length_blank wellFormed_def)

lemma nth_snapshotOf:
  "wellFormed cv \<Longrightarrow> i < length (pixels cv) \<Longrightarrow> pixels (snapshotOf P cv) ! i = pixels cv ! i"
  by (simp add: snapshotOf_def nth_drawImage length_blank wellFormed_def blankCanvas_def source_over_clear)

lemma dims_snapshotOf: "cwidth (snapshotOf P cv) = cwidth cv" "cheight (snapshotOf P cv) = cheight cv"
  by (simp_all add: snapshotOf_def drawImage_def blankCanvas_def)

lemma wellFormed_snapshotOf: "wellFormed cv \<Longrightarrow> wellFormed (snapshotOf P cv)"
  using length_snapshotOf [of cv P] by (simp add: wellFormed_def dims_snapshotOf)

lemma length_fillGrad:
  "length (pixels (fillGrad P w h cols ang fs (blankCanvas w h))) = w * h"
  by (simp add: fillGrad_def Let_def blankCanvas_def)

lemma length_gradientMask:
  "wellFormed orig \<Longrightarrow> length (pixels (gradientMask P orig f tall)) = length (pixels orig)"
  by (simp add: gradientMask_def Let_def length_drawImage length_fillGrad wellFormed_def)

lemma gradientMask_alpha:
  assumes "wellFormed orig" "i < length (pixels orig)"
  shows "pa (pixels (gradientMask P orig f tall) ! i)
           = pa (pixels (fillGrad P (cwidth orig) (cheight orig) (f_colors f)
                   (if tall \<and> f_angTall f \<noteq> None then f_angTall f else f_ang f)
                   (tall \<and> (if tall \<and> f_angTall f \<noteq> None then f_angTall f else f_ang f) \<noteq> None)
                   (blankCanvas (cwidth orig) (cheight orig))) ! i)
             * pa (pixels orig ! i)"
  using assms
  by (simp add: gradientMask_def Let_def nth_drawImage length_fillGrad wellFormed_def
      destination_in_alpha fade_def)

lemma length_blendedBase:
  "wellFormed orig \<Longrightarrow> length (pixels (blendedBase P orig f tall)) = length (pixels orig)"
  by (simp add: blendedBase_def Let_def length_drawImage length_gradientMask length_blank wellFormed_def)

lemma length_applyStep:
  "wellFormed orig \<Longrightarrow> length (pixels orig) = length (pixels cv) \<Longrightarrow>
     length (pixels (applyStep P orig tall cv f)) = length (pixels cv)"
  by (simp add: applyStep_def applyMaskedFilter_def length_drawImage length_blendedBase length_fillRectAll)

lemma alpha_applyStep:
  assumes "wellFormed orig" "length (pixels orig) = length (pixels cv)" "i < length (pixels cv)"
  shows "pa (pixels (applyStep P orig tall cv f) ! i) = pa (pixels cv ! i)"
  using assms
  by (simp add: applyStep_def applyMaskedFilter_def nth_drawImage length_blendedBase
      nth_fillRectAll source_atop_alpha)

text \<open>
  The loop over the pipeline keeps the size and the alpha of the canvas, whether it runs
  to the end or stops with an exception.
\<close>

lemma applySteps_keeps:
  assumes "wellFormed orig" "length (pixels orig) = length (pixels cv)"
  shows "length (pixels (fst (applySteps P orig tall steps cv))) = length (pixels cv)
         \<and> (\<forall>i < length (pixels cv).
               pa (pixels (fst (applySteps P orig tall steps cv)) ! i) = pa (pixels cv ! i))"
  using assms(2)
proof (induction steps arbitrary: cv)
  case Nil
  then show ?case by simp
next
  case (Cons step steps)
  show ?case
  proof (cases "snd step")
    case (FilterOf f)
    let ?cv = "applyStep P orig tall cv f"
    have l: "length (pixels ?cv) = length (pixels cv)"
      using assms(1) Cons.prems by (rule length_applyStep)
    have a: "\<forall>i < length (pixels cv). pa (pixels ?cv ! i) = pa (pixels cv ! i)"
      using assms(1) Cons.prems by (simp add: alpha_applyStep)
    from Cons.IH [of ?cv] l Cons.prems a show ?thesis by (simp add: FilterOf)
  next
    case InheritedMember
    then show ?thesis by simp
  qed
qed

lemma alpha_applyMutations:
  assumes "wellFormed base" "i < length (pixels base)"
  shows "pa (pixels (fst (applyMutations P base sel tall tint)) ! i) = pa (pixels base ! i)"
  using assms applySteps_keeps [OF wellFormed_snapshotOf [OF assms(1)] length_snapshotOf [OF assms(1)], of P P tall]
  by (simp add: applyMutations_def Let_def)




text \<open>
  The non-masked steps of the pipeline are the non-masked entries of \<open>FILTERS\<close> (the
  custom tint is masked). Each has one colour and an opacity in \<open>[0, 1]\<close>; the colour
  is opaque, except for Thunderstruck, whose colour is transparent and whose opacity is 0.
\<close>

lemma FILTERS_flat_steps:
  assumes "objectGet FILTERS m = Own f" and "\<not> f_masked f"
  shows "length (f_colors f) = 1
         \<and> (case f_a f of
               None \<Rightarrow> False
             | Some \<alpha> \<Rightarrow> 0 \<le> \<alpha> \<and> \<alpha> \<le> 1 \<and> (opacity (hd (f_colors f)) = 1 \<or> \<alpha> = 0))"
  using assms
  by (auto simp: objectGet_def FILTERS_def rgb_def transparent_def split: if_splits)

text \<open>
  C1. A non-masked step with tint colour \<open>t\<close> (opaque, or drawn with opacity 0) and
  opacity \<open>\<alpha>\<close> in \<open>[0, 1]\<close>, applied to any canvas: at every pixel the alpha is the
  alpha of the canvas before the step, and the premultiplied colour is
  \<open>base.a \<times> t \<times> \<alpha> + base.premultiplied \<times> (1 - \<alpha>)\<close>; hence wherever the pixel is
  not fully transparent its colour is \<open>t \<times> \<alpha> + base.rgb \<times> (1 - \<alpha>)\<close>. A fully
  transparent pixel has no colour of its own and stays fully transparent.
\<close>

theorem flat_tint_blend:
  assumes "\<not> f_masked f" and "f_colors f = t # ts" and "opacity t = 1 \<or> \<alpha> = 0"
    and "f_a f = Some \<alpha>" and "0 \<le> \<alpha>" and "\<alpha> \<le> 1"
    and "i < length (pixels cv)"
    and "q = pixels (applyStep P orig tall cv f) ! i" and "p = pixels cv ! i"
  shows "pa q = pa p
         \<and> pr q = pa p * (red t * \<alpha>) + pr p * (1 - \<alpha>)
         \<and> pg q = pa p * (green t * \<alpha>) + pg p * (1 - \<alpha>)
         \<and> pb q = pa p * (blue t * \<alpha>) + pb p * (1 - \<alpha>)
         \<and> (pa p \<noteq> 0 \<longrightarrow>
              straight (pr q) (pa q) = red t * \<alpha> + straight (pr p) (pa p) * (1 - \<alpha>)
              \<and> straight (pg q) (pa q) = green t * \<alpha> + straight (pg p) (pa p) * (1 - \<alpha>)
              \<and> straight (pb q) (pa q) = blue t * \<alpha> + straight (pb p) (pa p) * (1 - \<alpha>))"
proof -
  have q: "q = compositePixel P ''source-atop'' (paint \<alpha> t) p"
    using assms by (simp add: applyStep_def nth_fillRectAll globalAlphaOf_def)
  have a: "pa q = pa p" by (simp add: q source_atop_alpha)
  have c: "pr q = pa p * (red t * \<alpha>) + pr p * (1 - \<alpha>)"
    "pg q = pa p * (green t * \<alpha>) + pg p * (1 - \<alpha>)"
    "pb q = pa p * (blue t * \<alpha>) + pb p * (1 - \<alpha>)"
    using assms(3) by (auto simp: q compositePixel_def porterDuff_def paint_def)
  have s: "pa p \<noteq> 0 \<Longrightarrow> straight (pr q) (pa q) = red t * \<alpha> + straight (pr p) (pa p) * (1 - \<alpha>)"
    "pa p \<noteq> 0 \<Longrightarrow> straight (pg q) (pa q) = green t * \<alpha> + straight (pg p) (pa p) * (1 - \<alpha>)"
    "pa p \<noteq> 0 \<Longrightarrow> straight (pb q) (pa q) = blue t * \<alpha> + straight (pb p) (pa p) * (1 - \<alpha>)"
    by (simp_all add: a c straight_def field_simps)
  from a c s show ?thesis by blast
qed

theorem flat_tint_blend_witness:
  "pa (pixels (fst (applyMutations simplePlatform threePixels [''Gold''] False None)) ! 1) = 1 / 2
   \<and> straight (pr (pixels (fst (applyMutations simplePlatform threePixels [''Gold''] False None)) ! 1))
                (pa (pixels (fst (applyMutations simplePlatform threePixels [''Gold''] False None)) ! 1))
         = (235 / 255) * (7 / 10)
   \<and> straight (pb (pixels (fst (applyMutations simplePlatform threePixels [''Gold''] False None)) ! 1))
                (pa (pixels (fst (applyMutations simplePlatform threePixels [''Gold''] False None)) ! 1))
         = 3 / 10
   \<and> pixels (fst (applyMutations simplePlatform threePixels [''Gold''] False None)) ! 2 = clearPixel"
proof -
  let ?gold = "\<lparr>f_op = ''source-atop'', f_colors = [rgb 235 200 0], f_a = Some 0.7,
                 f_ang = None, f_angTall = None, f_masked = False\<rparr>"
  let ?orig = "snapshotOf simplePlatform threePixels"
  let ?out = "applyStep simplePlatform ?orig False threePixels ?gold"
  have run: "fst (applyMutations simplePlatform threePixels [''Gold''] False None) = ?out"
    by (simp add: applyMutations_def buildPipeline_def resolveActiveMutations_def
        renderPriority_def objectGet_def MUTATION_RENDER_ORDER_def objectPrototypeNames_def
        FILTERS_def)
  have one: "(1::nat) < length (pixels threePixels)" and two: "(2::nat) < length (pixels threePixels)"
    by (simp_all add: threePixels_def)
  have f: "\<not> f_masked ?gold" "f_colors ?gold = rgb 235 200 0 # []"
    "opacity (rgb 235 200 0) = 1 \<or> (0.7::real) = 0"
    "f_a ?gold = Some 0.7" "(0::real) \<le> 0.7" "(0.7::real) \<le> 1"
    by (simp_all add: rgb_def)
  have p1: "pixels threePixels ! 1 = halfBlue" and p2: "pixels threePixels ! 2 = clearPixel"
    by (simp_all add: threePixels_def)
  note w1 = flat_tint_blend [OF f one refl refl, of simplePlatform ?orig False, unfolded p1]
  note w2 = flat_tint_blend [OF f two refl refl, of simplePlatform ?orig False, unfolded p2]
  have nz: "pa halfBlue \<noteq> 0" by (simp add: halfBlue_def)
  from w1 have a0: "pa (pixels ?out ! 1) = pa halfBlue" by (rule conjunct1)
  from w1 nz have r0: "straight (pr (pixels ?out ! 1)) (pa (pixels ?out ! 1))
      = red (rgb 235 200 0) * 0.7 + straight (pr halfBlue) (pa halfBlue) * (1 - 0.7)"
    by blast
  from w1 nz have b0: "straight (pb (pixels ?out ! 1)) (pa (pixels ?out ! 1))
      = blue (rgb 235 200 0) * 0.7 + straight (pb halfBlue) (pa halfBlue) * (1 - 0.7)"
    by blast
  have a: "pa (pixels ?out ! 1) = 1 / 2"
    unfolding a0 by (simp add: halfBlue_def)
  have r: "straight (pr (pixels ?out ! 1)) (pa (pixels ?out ! 1)) = (235 / 255) * (7 / 10)"
    unfolding r0 by (simp add: halfBlue_def rgb_def straight_def)
  have b: "straight (pb (pixels ?out ! 1)) (pa (pixels ?out ! 1)) = 3 / 10"
    unfolding b0 by (simp add: halfBlue_def rgb_def straight_def)
  from w2 have c0: "pa (pixels ?out ! 2) = pa clearPixel"
    "pr (pixels ?out ! 2) = pa clearPixel * (red (rgb 235 200 0) * 0.7) + pr clearPixel * (1 - 0.7)"
    "pg (pixels ?out ! 2) = pa clearPixel * (green (rgb 235 200 0) * 0.7) + pg clearPixel * (1 - 0.7)"
    "pb (pixels ?out ! 2) = pa clearPixel * (blue (rgb 235 200 0) * 0.7) + pb clearPixel * (1 - 0.7)"
    by blast+
  have c: "pixels ?out ! 2 = clearPixel"
    by (rule pixel.equality) (simp_all add: c0, simp_all add: clearPixel_def)
  from a r b c show ?thesis unfolding run by blast
qed

text \<open>
  C2. A masked step (Rainbow, or the custom tint) applied by the pipeline after any
  steps before it: a pixel whose alpha is 0 in the canvas as it was handed to
  \<open>applyMutations\<close> has alpha 0 after the step. The mask of the step is computed from
  the snapshot taken before the first step, and has alpha 0 at that pixel as well; the
  step draws the blended canvas with source-atop, which keeps the alpha of the canvas.
  The same holds for the canvas as \<open>applyMutations\<close> leaves it.
\<close>

theorem masked_step_keeps_transparent:
  assumes "f_masked f" and "wellFormed base" and "i < length (pixels base)"
    and "pa (pixels base ! i) = 0"
  shows "applyStep P (snapshotOf P base) tall cv f
           = applyMaskedFilter P cv (snapshotOf P base) f tall
         \<and> pa (pixels (fst (applySteps P (snapshotOf P base) tall (pre @ [(name, FilterOf f)])
                             base)) ! i) = 0
         \<and> pa (pixels (gradientMask P (snapshotOf P base) f tall) ! i) = 0
         \<and> pa (pixels (fst (applyMutations P base sel tall tint)) ! i) = 0"
proof -
  have wf: "wellFormed (snapshotOf P base)" using assms(2) by (rule wellFormed_snapshotOf)
  have len: "length (pixels (snapshotOf P base)) = length (pixels base)"
    using assms(2) by (rule length_snapshotOf)
  have "pa (pixels (fst (applySteps P (snapshotOf P base) tall (pre @ [(name, FilterOf f)])
                          base)) ! i)
          = pa (pixels base ! i)"
    using applySteps_keeps [OF wf len] assms(3) by blast
  moreover have "pa (pixels (gradientMask P (snapshotOf P base) f tall) ! i) = 0"
    using gradientMask_alpha [OF wf, of i P f tall] assms(2,3,4) len
    by (simp add: nth_snapshotOf)
  moreover have "pa (pixels (fst (applyMutations P base sel tall tint)) ! i) = pa (pixels base ! i)"
    using assms(2,3) by (rule alpha_applyMutations)
  ultimately show ?thesis using assms(1,4) by (simp add: applyStep_def)
qed

theorem masked_step_keeps_transparent_witness:
  "pa (pixels (fst (applyMutations simplePlatform threePixels [''Rainbow'', ''Wet''] False
                      (Some \<lparr>tintColor = rgb 10 20 30, tintOpacity = 0.5\<rparr>))) ! 2) = 0
   \<and> pa (pixels (gradientMask simplePlatform (snapshotOf simplePlatform threePixels)
                   \<lparr>f_op = ''source-atop'', f_colors = [rgb 10 20 30], f_a = Some 0.5,
                    f_ang = None, f_angTall = None, f_masked = True\<rparr> False) ! 2) = 0"
proof -
  let ?custom = "\<lparr>f_op = ''source-atop'', f_colors = [rgb 10 20 30], f_a = Some 0.5,
                   f_ang = None, f_angTall = None, f_masked = True\<rparr>"
  have h: "f_masked ?custom" "wellFormed threePixels" "(2::nat) < length (pixels threePixels)"
    "pa (pixels threePixels ! 2) = 0"
    by (simp_all add: wellFormed_def threePixels_def clearPixel_def)
  show ?thesis
    using masked_step_keeps_transparent [OF h, of simplePlatform False threePixels "[]" "''Custom''"
        "[''Rainbow'', ''Wet'']" "Some \<lparr>tintColor = rgb 10 20 30, tintOpacity = 0.5\<rparr>"]
    by simp
qed

section \<open>Decoder: restore to background\<close>

lemma length_clearRect: "length (pixels (clearRect x y rw rh cv)) = length (pixels cv)"
  by (simp add: clearRect_def)

lemma cwidth_clearRect: "cwidth (clearRect x y rw rh cv) = cwidth cv"
  by (simp add: clearRect_def)

lemma nth_clearRect:
  "k < length (pixels cv) \<Longrightarrow>
     pixels (clearRect x y rw rh cv) ! k
       = (if inRect (cwidth cv) x y rw rh k then clearPixel else pixels cv ! k)"
  by (simp add: clearRect_def)

lemma length_tempCanvas: "length (pixels (tempCanvas reader i)) = gwidth reader * gheight reader"
  by (simp add: tempCanvas_def)

lemma nth_tempCanvas:
  "k < gwidth reader * gheight reader \<Longrightarrow> pixels (tempCanvas reader i) ! k = blitFrame reader i k"
  by (simp add: tempCanvas_def)

lemma cwidth_drawImage: "cwidth (drawImage P operator g src dst) = cwidth dst"
  by (simp add: drawImage_def)

lemma decodeStep_comp_ok:
  "compOk reader (fst st) \<Longrightarrow> compOk reader (fst (decodeStep P reader st i))"
  by (simp add: decodeStep_def Let_def compOk_def length_clearRect cwidth_clearRect
      length_drawImage cwidth_drawImage length_tempCanvas)

lemma decodeState_Suc:
  "decodeState P reader (Suc n) = decodeStep P reader (decodeState P reader n) n"
  by (simp add: decodeState_def)

lemma decodeState_comp_ok: "compOk reader (fst (decodeState P reader n))"
proof (induction n)
  case 0
  then show ?case by (simp add: decodeState_def compOk_def blankCanvas_def)
next
  case (Suc n)
  then show ?case by (simp add: decodeState_Suc decodeStep_comp_ok)
qed

lemma decodeStep_frames:
  "snd (decodeStep P reader st i) = snd st @ [last (snd (decodeStep P reader st i))]"
  by (simp add: decodeStep_def Let_def)

lemma length_decodeState: "length (snd (decodeState P reader n)) = n"
  by (induction n) (simp_all add: decodeState_def decodeStep_def Let_def)

lemma decodeState_prefix:
  "n \<le> m \<Longrightarrow> take n (snd (decodeState P reader m)) = snd (decodeState P reader n)"
proof (induction m)
  case 0
  then show ?case by (simp add: decodeState_def)
next
  case (Suc m)
  show ?case
  proof (cases "n = Suc m")
    case True
    then show ?thesis using length_decodeState [of P reader "Suc m"] by simp
  next
    case False
    then have "n \<le> m" using Suc.prems by simp
    then show ?thesis
      using Suc.IH length_decodeState [of P reader m]
      by (simp add: decodeState_Suc decodeStep_def Let_def)
  qed
qed

lemma decodeState_nth:
  assumes "j < n"
  shows "snd (decodeState P reader n) ! j = last (snd (decodeState P reader (Suc j)))"
proof -
  have "take (Suc j) (snd (decodeState P reader n)) = snd (decodeState P reader (Suc j))"
    using assms by (simp add: decodeState_prefix)
  moreover have "length (snd (decodeState P reader (Suc j))) = Suc j"
    by (rule length_decodeState)
  ultimately show ?thesis
    by (metis last_conv_nth length_0_conv diff_Suc_1 lessI nat.simps(3) nth_take)
qed

lemma cleared_after_disposal_2:
  assumes "disposal (frameInfos reader ! i) = 2" and "k < gwidth reader * gheight reader"
    and "inRect (gwidth reader) (fx (frameInfos reader ! i)) (fy (frameInfos reader ! i))
           (fwidth (frameInfos reader ! i)) (fheight (frameInfos reader ! i)) k"
  shows "pixels (fst (decodeState P reader (Suc i))) ! k = clearPixel"
proof -
  have ok: "compOk reader (fst (decodeState P reader i))" by (rule decodeState_comp_ok)
  show ?thesis
    using assms ok
    by (simp add: decodeState_Suc decodeStep_def Let_def nth_clearRect length_drawImage
        length_tempCanvas length_clearRect cwidth_drawImage cwidth_clearRect compOk_def)
qed

lemma output_on_clear:
  assumes "compOk reader (fst st)" and "k < gwidth reader * gheight reader"
    and "pixels (fst st) ! k = clearPixel"
  shows "pixels (canvas (last (snd (decodeStep P reader st i)))) ! k = blitFrame reader i k"
  using assms
  by (simp add: decodeStep_def Let_def nth_drawImage length_drawImage length_tempCanvas
      length_clearRect length_blank nth_clearRect nth_tempCanvas compOk_def blankCanvas_def
      source_over_clear)

text \<open>
  C5. Let frame \<open>i\<close> have disposal 2 (restore to background) and let frame \<open>i + 1\<close>
  exist. For every pixel of the canvas inside the rectangle of frame \<open>i\<close>: after the
  iteration of frame \<open>i\<close>, that is after its output was captured, the compositing canvas
  is transparent there; and the output of frame \<open>i + 1\<close> holds there exactly the pixel
  that frame \<open>i + 1\<close> itself draws, transparent where it draws nothing. Nothing of frame
  \<open>i\<close> is left.
\<close>

theorem decodeGif_restore_to_background:
  assumes "Suc i < length (frameInfos reader)"
    and "disposal (frameInfos reader ! i) = 2"
    and "k < gwidth reader * gheight reader"
    and "inRect (gwidth reader) (fx (frameInfos reader ! i)) (fy (frameInfos reader ! i))
           (fwidth (frameInfos reader ! i)) (fheight (frameInfos reader ! i)) k"
  shows "pixels (fst (decodeState P reader (Suc i))) ! k = clearPixel
         \<and> pixels (canvas (decodedFrames (decodeGif P reader) ! Suc i)) ! k
             = blitFrame reader (Suc i) k"
proof -
  let ?st = "decodeState P reader (Suc i)"
  have cl: "pixels (fst ?st) ! k = clearPixel"
    using assms(2,3,4) by (rule cleared_after_disposal_2)
  have ok: "compOk reader (fst ?st)" by (rule decodeState_comp_ok)
  have "decodedFrames (decodeGif P reader) ! Suc i = last (snd (decodeState P reader (Suc (Suc i))))"
    using assms(1) by (simp add: decodeGif_def decodeState_nth)
  also have "\<dots> = last (snd (decodeStep P reader ?st (Suc i)))"
    by (simp only: decodeState_Suc)
  finally have "pixels (canvas (decodedFrames (decodeGif P reader) ! Suc i)) ! k
                  = blitFrame reader (Suc i) k"
    using output_on_clear [OF ok assms(3) cl, of P "Suc i"] by simp
  with cl show ?thesis by simp
qed

theorem decodeGif_restore_to_background_witness:
  "pixels (canvas (decodedFrames (decodeGif simplePlatform squareGif) ! 2)) ! 55 = clearPixel
   \<and> pixels (fst (decodeState simplePlatform squareGif 2)) ! 55 = clearPixel
   \<and> blitFrame squareGif 1 55 = opaqueRed"
proof -
  have h: "Suc 1 < length (frameInfos squareGif)" "disposal (frameInfos squareGif ! 1) = 2"
    "55 < gwidth squareGif * gheight squareGif"
    "inRect (gwidth squareGif) (fx (frameInfos squareGif ! 1)) (fy (frameInfos squareGif ! 1))
       (fwidth (frameInfos squareGif ! 1)) (fheight (frameInfos squareGif ! 1)) 55"
    by (simp_all add: squareGif_def inRect_def)
  have b: "blitFrame squareGif (Suc 1) 55 = clearPixel" "blitFrame squareGif 1 55 = opaqueRed"
    by (simp_all add: squareGif_def inRect_def)
  have two: "Suc 1 = 2" by simp
  show ?thesis
    using decodeGif_restore_to_background [OF h, of simplePlatform] b
    unfolding two by simp
qed

section \<open>Slot compositor: null results and failing decorations\<close>






































end
